theory Spec2Isabelle
  imports Complex_Main "HOL-Library.Sublist"
begin

section \<open>Python strings\<close>

text \<open>
  A Python \<^verbatim>\<open>str\<close> is a sequence of code points. It is modelled as a \<^typ>\<open>string\<close> whose
  characters are the code points 0..255 (the Latin-1 range); \<^const>\<open>length\<close> counts code
  points, as \<^verbatim>\<open>len\<close> does. The character classes below are Python's, cut to that range.
\<close>

datatype py_error = ValueError | IndexError | ExtractionError | OSError

text \<open>\<^verbatim>\<open>str.isspace\<close> for one character: TAB, LF, VT, FF, CR, FS, GS, RS, US, space, NEL, NBSP.\<close>

definition isspace :: "char \<Rightarrow> bool" where
  "isspace c = (c \<in> set [CHR 0x09, CHR 0x0A, CHR 0x0B, CHR 0x0C, CHR 0x0D,
                          CHR 0x1C, CHR 0x1D, CHR 0x1E, CHR 0x1F, CHR 0x20,
                          CHR 0x85, CHR 0xA0])"

text \<open>\<^verbatim>\<open>s.strip()\<close>: whitespace removed at both ends.\<close>

definition py_strip :: "string \<Rightarrow> string" where
  "py_strip s = rev (dropWhile isspace (rev (dropWhile isspace s)))"

text \<open>\<^verbatim>\<open>s.lower()\<close>: A-Z and the Latin-1 capitals (0xC0-0xDE without the sign 0xD7) move up by 32.\<close>

definition lower_char :: "char \<Rightarrow> char" where
  "lower_char c =
     (let k = (of_char c :: nat) in
      if (65 \<le> k \<and> k \<le> 90) \<or> (192 \<le> k \<and> k \<le> 222 \<and> k \<noteq> 215)
      then char_of (k + 32) else c)"

definition py_lower :: "string \<Rightarrow> string" where
  "py_lower s = map lower_char s"

text \<open>\<^verbatim>\<open>s.startswith(p)\<close> and \<^verbatim>\<open>s.endswith(p)\<close>.\<close>

definition startswith :: "string \<Rightarrow> string \<Rightarrow> bool" where
  "startswith s p = (take (length p) s = p)"

definition endswith :: "string \<Rightarrow> string \<Rightarrow> bool" where
  "endswith s p = (length p \<le> length s \<and> drop (length s - length p) s = p)"

text \<open>
  \<^verbatim>\<open>s.split()\<close>: the maximal runs of non-whitespace characters, in order. The first
  argument is the word being read.
\<close>

fun split_from :: "string \<Rightarrow> string \<Rightarrow> string list" where
  "split_from cur [] = (if cur = [] then [] else [cur])"
| "split_from cur (c # cs) =
     (if isspace c then (if cur = [] then split_from [] cs else cur # split_from [] cs)
      else split_from (cur @ [c]) cs)"

definition py_split :: "string \<Rightarrow> string list" where
  "py_split s = split_from [] s"

text \<open>
  \<^verbatim>\<open>str.isdigit\<close>: in the Latin-1 range the digits 0-9 and the superscripts
  \<^verbatim>\<open>\xb2\<close>, \<^verbatim>\<open>\xb3\<close>, \<^verbatim>\<open>\xb9\<close>; the empty string is not a digit string.
  \<^verbatim>\<open>int\<close> reads only 0-9 (the decimal digits).
\<close>

definition is_decimal :: "char \<Rightarrow> bool" where
  "is_decimal c = (c \<in> set ''0123456789'')"

definition isdigit_char :: "char \<Rightarrow> bool" where
  "isdigit_char c = (is_decimal c \<or> c \<in> set [CHR 0xB2, CHR 0xB3, CHR 0xB9])"

definition py_isdigit :: "string \<Rightarrow> bool" where
  "py_isdigit s = (s \<noteq> [] \<and> list_all isdigit_char s)"

definition digit_val :: "char \<Rightarrow> nat" where
  "digit_val c = of_char c - 48"

text \<open>
  \<^verbatim>\<open>int(s)\<close> in base 10: an optional sign, then decimal digits, where single underscores
  may stand between two digits. \<open>None\<close> is the \<^verbatim>\<open>ValueError\<close>. Both call sites pass a
  string without whitespace (a token of \<^verbatim>\<open>split()\<close>, a string that passed
  \<^verbatim>\<open>isdigit()\<close>), so the stripping that \<^verbatim>\<open>int\<close> does first is left out.

  \<^verbatim>\<open>int\<close> also refuses a numeral with more than \<^verbatim>\<open>sys.get_int_max_str_digits()\<close> digit
  characters, 4300 unless the interpreter is configured otherwise: the sign and the
  underscores do not count, leading zeros do.
\<close>

definition max_str_digits :: nat where
  "max_str_digits = 4300"

fun read_digits :: "nat \<Rightarrow> string \<Rightarrow> nat option" where
  "read_digits acc [] = Some acc"
| "read_digits acc (c # cs) =
     (if is_decimal c then read_digits (10 * acc + digit_val c) cs
      else if c = CHR ''_'' \<and> cs \<noteq> [] \<and> is_decimal (hd cs) then read_digits acc cs
      else None)"

definition read_unsigned :: "string \<Rightarrow> nat option" where
  "read_unsigned s =
     (if s \<noteq> [] \<and> is_decimal (hd s) \<and> length (filter is_decimal s) \<le> max_str_digits
      then read_digits 0 s else None)"

definition py_int :: "string \<Rightarrow> int option" where
  "py_int s =
     (case s of
        [] \<Rightarrow> None
      | c # cs \<Rightarrow>
          if c = CHR ''-'' then map_option (\<lambda>n. - int n) (read_unsigned cs)
          else if c = CHR ''+'' then map_option int (read_unsigned cs)
          else map_option int (read_unsigned s))"

text \<open>
  \<^verbatim>\<open>str(n)\<close> for a non-negative integer, as the f-strings of the source print it. (The
  digit limit holds for \<^verbatim>\<open>str\<close> too; the counters printed here count sections and pieces
  of one document and stay far below a number of 4300 digits.)
\<close>

fun py_str :: "nat \<Rightarrow> string" where
  "py_str n =
     (if n < 10 then [''0123456789'' ! n]
      else py_str (n div 10) @ [''0123456789'' ! (n mod 10)])"

text \<open>
  \<^verbatim>\<open>text.rfind(" ", start, stop)\<close> for \<open>0 \<le> start\<close> and \<open>stop \<le> len(text)\<close>, the only way
  the chunker calls it: the highest index in \<open>[start, stop)\<close> holding a space, else \<open>-1\<close>.
\<close>

definition rfind_space :: "string \<Rightarrow> int \<Rightarrow> int \<Rightarrow> int" where
  "rfind_space text start stop =
     (case filter (\<lambda>i. text ! i = CHR '' '') (rev [nat start..<nat stop]) of
        [] \<Rightarrow> - 1
      | i # _ \<Rightarrow> int i)"

text \<open>\<^verbatim>\<open>text[start:stop]\<close> for non-negative indices (Python clips them to the length).\<close>

definition py_slice :: "string \<Rightarrow> int \<Rightarrow> int \<Rightarrow> string" where
  "py_slice text start stop = take (nat stop - nat start) (drop (nat start) text)"

section \<open>Sections\<close>

text \<open>The dataclass \<^verbatim>\<open>Section\<close> of \<^verbatim>\<open>sectionizer.py\<close> (field \<^verbatim>\<open>text\<close> is \<open>sec_text\<close>).\<close>

record Section =
  section_id :: string
  level :: int
  title :: string
  sec_text :: string
  page_start :: int
  page_end :: int
  related :: "(string \<times> string) list"

section \<open>The chunker\<close>

text \<open>
  \<^verbatim>\<open>int(0.5 * max_chars)\<close>: half of the integer, truncated towards zero (the float
  product is exact for integers below \<open>2^53\<close> in size).
\<close>

definition half_trunc :: "int \<Rightarrow> int" where
  "half_trunc m = (if 0 \<le> m then m div 2 else - ((- m) div 2))"

text \<open>
  The \<^verbatim>\<open>while start < n\<close> loop of \<^verbatim>\<open>_chunk_text\<close>, with the loop variables \<open>start\<close> and
  \<open>chunks\<close> as arguments. The loop may run forever; \<open>None\<close> is that outcome.
\<close>

partial_function (option) chunk_loop ::
  "string \<Rightarrow> int \<Rightarrow> int \<Rightarrow> int \<Rightarrow> string list \<Rightarrow> string list option" where
  "chunk_loop text max_chars overlap start chunks =
     (let n = int (length text) in
      if \<not> start < n then Some chunks
      else
        let e0 = min n (start + max_chars);
            e = (if e0 < n
                 then (let space = rfind_space text start e0
                       in if space \<noteq> - 1 \<and> space > start + half_trunc max_chars
                          then space else e0)
                 else e0);
            chunks' = chunks @ [py_strip (py_slice text start e)]
        in if e \<ge> n then Some chunks'
           else
             let s1 = max 0 (e - max 0 overlap);
                 s2 = (if s1 = e then s1 + 1 else s1)
             in chunk_loop text max_chars overlap s2 chunks')"

declare chunk_loop.simps [code]

definition chunk_text :: "string \<Rightarrow> int \<Rightarrow> int \<Rightarrow> string list option" where
  "chunk_text text max_chars overlap =
     (if max_chars \<le> 0 then Some [text]
      else map_option (filter (\<lambda>c. c \<noteq> [])) (chunk_loop text max_chars overlap 0 []))"

text \<open>
  The source text of a section in \<^verbatim>\<open>ingest_upload\<close>:
  \<^verbatim>\<open>(sec.title + "\n\n" + sec.text).strip() if sec.text else sec.title\<close>.
\<close>

definition base_text :: "Section \<Rightarrow> string" where
  "base_text sec =
     (if sec_text sec \<noteq> [] then py_strip (title sec @ [CHR 0x0A, CHR 0x0A] @ sec_text sec)
      else title sec)"

section \<open>The DOCX sectionizer\<close>

text \<open>
  \<^verbatim>\<open>level_from_style\<close>. The first branch catches every exception and answers 2; the
  second branch calls \<^verbatim>\<open>int\<close> outside any \<^verbatim>\<open>try\<close>, so a string that passes
  \<^verbatim>\<open>isdigit\<close> and that \<^verbatim>\<open>int\<close> refuses (a superscript digit) raises \<^verbatim>\<open>ValueError\<close>.
\<close>

definition level_from_style :: "string \<Rightarrow> py_error + int" where
  "level_from_style style =
     (let s = py_lower style in
      if startswith s ''heading '' then
        (case py_split s of
           _ # tok # _ \<Rightarrow>
             (case py_int tok of
                Some n \<Rightarrow> Inr (max 1 (min 6 n))
              | None \<Rightarrow> Inr 2)
         | _ \<Rightarrow> Inr 2)
      else if startswith s ''heading'' \<and> length s > 7 \<and> py_isdigit (drop 7 s) then
        (case py_int (drop 7 s) of
           Some n \<Rightarrow> Inr (max 1 (min 6 n))
         | None \<Rightarrow> Inl ValueError)
      else Inr 7)"

text \<open>
  A paragraph as the sectionizer receives it: a dict read with \<^verbatim>\<open>p.get(key) or ""\<close>,
  so a missing key and \<^verbatim>\<open>None\<close> are both \<open>None\<close> here.
\<close>

record para_dict =
  p_text :: "string option"
  p_style :: "string option"

definition or_empty :: "string option \<Rightarrow> string" where
  "or_empty v = (case v of None \<Rightarrow> [] | Some s \<Rightarrow> s)"

text \<open>The local variables of both sectionizer loops: the emitted list, the open section, the counter.\<close>

record loop_state =
  sections :: "Section list"
  current :: "Section option"
  sid :: nat

definition init_state :: loop_state where
  "init_state = \<lparr>sections = [], current = None, sid = 0\<rparr>"

text \<open>\<^verbatim>\<open>if current: sections.append(current)\<close> (a dataclass instance is always true).\<close>

definition flush :: "loop_state \<Rightarrow> Section list" where
  "flush st = (case current st of None \<Rightarrow> sections st | Some c \<Rightarrow> sections st @ [c])"

text \<open>\<^verbatim>\<open>current.text += ("\n" if current.text else "") + text\<close>.\<close>

definition append_line :: "Section \<Rightarrow> string \<Rightarrow> Section" where
  "append_line c t =
     c\<lparr>sec_text := sec_text c @ (if sec_text c \<noteq> [] then [CHR 0x0A] else []) @ t\<rparr>"

definition docx_step :: "loop_state \<Rightarrow> para_dict \<Rightarrow> py_error + loop_state" where
  "docx_step st p =
     (let t = py_strip (or_empty (p_text p));
          style = or_empty (p_style p)
      in case level_from_style style of
           Inl err \<Rightarrow> Inl err
         | Inr lvl \<Rightarrow>
             if lvl \<le> 6 \<and> t \<noteq> [] then
               Inr \<lparr>sections = flush st,
                    current = Some \<lparr>section_id = ''sec_'' @ py_str (sid st + 1), level = lvl,
                                    title = t, sec_text = [], page_start = 1, page_end = 1,
                                    related = []\<rparr>,
                    sid = sid st + 1\<rparr>
             else
               (case current st of
                  Some c \<Rightarrow> if t \<noteq> [] then Inr (st\<lparr>current := Some (append_line c t)\<rparr>)
                            else Inr st
                | None \<Rightarrow> Inr st))"

fun docx_loop :: "loop_state \<Rightarrow> para_dict list \<Rightarrow> py_error + loop_state" where
  "docx_loop st [] = Inr st"
| "docx_loop st (p # ps) =
     (case docx_step st p of
        Inl err \<Rightarrow> Inl err
      | Inr st' \<Rightarrow> docx_loop st' ps)"

definition sectionize_from_docx_paragraphs :: "para_dict list \<Rightarrow> py_error + Section list" where
  "sectionize_from_docx_paragraphs paragraphs =
     (case docx_loop init_state paragraphs of
        Inl err \<Rightarrow> Inl err
      | Inr st \<Rightarrow> Inr (flush st))"

section \<open>The PDF sectionizer\<close>

text \<open>
  A line and a page as the sectionizer reads them. Font sizes are Python floats; they are
  modelled as reals, and a missing or \<^verbatim>\<open>None\<close> size is \<open>None\<close>. The comparisons of
  the code are exact on floats; its two products, \<^verbatim>\<open>0.85 * (len(sizes) - 1)\<close> and
  \<^verbatim>\<open>0.9 * size_thr\<close>, are rounded to the nearest float and are taken here as the exact
  products. For the second one this can differ for a bold line whose size lies within one
  rounding step of nine tenths of the threshold. The general statements below hold for
  every threshold and every outcome of the heading test; the evaluated documents are
  decided by comparing equal sizes, where nothing is rounded.
\<close>

record line_dict =
  ln_text :: "string option"
  ln_size :: "real option"
  ln_bold :: bool

record page_dict =
  page_num :: int
  lines :: "line_dict list"

definition positive_sizes :: "page_dict list \<Rightarrow> real list" where
  "positive_sizes pages =
     concat (map (\<lambda>p. concat (map (\<lambda>line. case ln_size line of
                                           None \<Rightarrow> []
                                         | Some sz \<Rightarrow> if sz > 0 then [sz] else [])
                                  (lines p))) pages)"

definition compute_size_thresholds :: "page_dict list \<Rightarrow> real" where
  "compute_size_thresholds pages =
     (let sizes = positive_sizes pages in
      if sizes = [] then 0
      else sort sizes ! nat \<lfloor>0.85 * real (length sizes - 1)\<rfloor>)"

definition is_heading :: "real \<Rightarrow> real \<Rightarrow> bool \<Rightarrow> bool" where
  "is_heading size_thr sz bold =
     (sz \<ge> size_thr \<or> (bold \<and> size_thr \<noteq> 0 \<and> sz \<ge> 0.9 * size_thr))"

definition pdf_step :: "real \<Rightarrow> int \<Rightarrow> loop_state \<Rightarrow> line_dict \<Rightarrow> loop_state" where
  "pdf_step size_thr pn st line =
     (let t = py_strip (or_empty (ln_text line)) in
      if t = [] then st
      else
        let sz = (case ln_size line of None \<Rightarrow> 0 | Some z \<Rightarrow> z);
            bold = ln_bold line
        in if is_heading size_thr sz bold then
             \<lparr>sections = flush st,
              current = Some \<lparr>section_id = ''sec_'' @ py_str (sid st + 1), level = 2,
                              title = t, sec_text = [], page_start = pn, page_end = pn,
                              related = []\<rparr>,
              sid = sid st + 1\<rparr>
           else
             (case current st of
                Some c \<Rightarrow>
                  st\<lparr>current := Some ((append_line c t)\<lparr>page_end := max (page_end c) pn\<rparr>)\<rparr>
              | None \<Rightarrow>
                  \<lparr>sections = sections st,
                   current = Some \<lparr>section_id = ''sec_'' @ py_str (sid st + 1), level = 3,
                                   title = ''Preamble'', sec_text = t, page_start = pn,
                                   page_end = pn, related = []\<rparr>,
                   sid = sid st + 1\<rparr>))"

definition pdf_page :: "real \<Rightarrow> loop_state \<Rightarrow> page_dict \<Rightarrow> loop_state" where
  "pdf_page size_thr st p = foldl (pdf_step size_thr (page_num p)) st (lines p)"

definition sectionize_pdf_lines :: "page_dict list \<Rightarrow> Section list" where
  "sectionize_pdf_lines pages =
     (let size_thr = compute_size_thresholds pages
      in flush (foldl (pdf_page size_thr) init_state pages))"

section \<open>The dispatcher\<close>

record FileInfo =
  path :: string
  mime :: string
  ext :: string

record Paragraph =
  para_text :: string
  para_style :: string

record DocxContent =
  paragraphs :: "Paragraph list"
  has_heading_styles :: bool

text \<open>Of \<^verbatim>\<open>PageText\<close> the dispatcher passes on the page number and the lines only.\<close>

record PageText =
  pt_page_num :: int
  pt_lines :: "line_dict list"

text \<open>
  What lies outside the repository's own logic: the file system, the \<^verbatim>\<open>filetype\<close>
  library (its answer is the pair of MIME type and extension) and the two parsing
  libraries behind the extractors. Each may raise.
\<close>

record externals =
  read_file :: "string \<Rightarrow> py_error + string"
  filetype_guess :: "string \<Rightarrow> (string \<times> string) option"
  extract_docx_fast :: "string \<Rightarrow> py_error + DocxContent"
  extract_pdf_native_text :: "string \<Rightarrow> py_error + PageText list"

definition sniff_file :: "externals \<Rightarrow> string \<Rightarrow> py_error + FileInfo" where
  "sniff_file w p =
     (case read_file w p of
        Inl err \<Rightarrow> Inl err
      | Inr bytes \<Rightarrow>
          (case filetype_guess w (take 261 bytes) of
             None \<Rightarrow> Inr \<lparr>path = p, mime = ''application/octet-stream'', ext = []\<rparr>
           | Some (m, e) \<Rightarrow> Inr \<lparr>path = p, mime = m, ext = e\<rparr>))"

datatype meta_value = MStr string | MBool bool

record ProcessResult =
  document_id :: string
  res_mime :: string
  res_sections :: "Section list"
  meta :: "string \<rightharpoonup> meta_value"

definition process_file :: "externals \<Rightarrow> string \<Rightarrow> string \<Rightarrow> py_error + ProcessResult" where
  "process_file w doc_id p =
     (case sniff_file w p of
        Inl err \<Rightarrow> Inl err
      | Inr info \<Rightarrow>
          let meta0 = [''path'' \<mapsto> MStr p, ''mime'' \<mapsto> MStr (mime info),
                       ''ext'' \<mapsto> MStr (ext info)]
          in
          if mime info \<in> set [''application/vnd.openxmlformats-officedocument.wordprocessingml.document'',
                               ''application/x-zip-compressed'']
             \<or> endswith (py_lower p) ''.docx''
          then
            (case extract_docx_fast w p of
               Inl err \<Rightarrow> Inl err
             | Inr docx \<Rightarrow>
                 (case sectionize_from_docx_paragraphs
                         (map (\<lambda>q. \<lparr>p_text = Some (para_text q), p_style = Some (para_style q)\<rparr>)
                              (paragraphs docx)) of
                    Inl err \<Rightarrow> Inl err
                  | Inr secs \<Rightarrow>
                      Inr \<lparr>document_id = doc_id, res_mime = mime info, res_sections = secs,
                           meta = meta0(''has_heading_styles'' \<mapsto> MBool (has_heading_styles docx))\<rparr>))
          else if mime info = ''application/pdf'' \<or> endswith (py_lower p) ''.pdf''
          then
            (case extract_pdf_native_text w p of
               Inl err \<Rightarrow> Inl err
             | Inr pages \<Rightarrow>
                 Inr \<lparr>document_id = doc_id, res_mime = mime info,
                      res_sections =
                        sectionize_pdf_lines
                          (map (\<lambda>q. \<lparr>page_num = pt_page_num q, lines = pt_lines q\<rparr>) pages),
                      meta = meta0\<rparr>)
          else if mime info = ''application/msword'' \<or> endswith (py_lower p) ''.doc''
          then
            Inr \<lparr>document_id = doc_id, res_mime = mime info, res_sections = [],
                 meta = meta0(''note'' \<mapsto>
                          MStr ''Legacy .doc normalization to .docx required before extraction'')\<rparr>
          else
            Inr \<lparr>document_id = doc_id, res_mime = mime info, res_sections = [],
                 meta = meta0(''note'' \<mapsto> MStr (''Unsupported MIME: '' @ mime info))\<rparr>)"

section \<open>Chunk records\<close>

record chunk_metadata =
  md_level :: int
  md_title :: string
  md_page_start :: int
  md_page_end :: int
  md_related :: "(string \<times> string) list"

record chunk_doc =
  doc_document_id :: string
  chunk_id :: string
  chunk_index :: int
  content :: string
  metadata :: chunk_metadata

text \<open>
  The two loops of \<^verbatim>\<open>ingest_upload\<close> that build \<^verbatim>\<open>chunk_docs\<close>. The state is the pair of
  \<^verbatim>\<open>running_index\<close> and \<^verbatim>\<open>chunk_docs\<close>; \<open>j\<close> is the counter of \<^verbatim>\<open>enumerate\<close>.
\<close>

fun pieces_loop :: "string \<Rightarrow> Section \<Rightarrow> nat \<Rightarrow> string list \<Rightarrow> int \<times> chunk_doc list
    \<Rightarrow> int \<times> chunk_doc list" where
  "pieces_loop doc_id sec j [] st = st"
| "pieces_loop doc_id sec j (piece # rest) (running_index, chunk_docs) =
     (let running_index' = running_index + 1 in
      pieces_loop doc_id sec (j + 1) rest
        (running_index',
         chunk_docs @
           [\<lparr>doc_document_id = doc_id,
             chunk_id = section_id sec @ ''_c'' @ py_str (j + 1),
             chunk_index = running_index' - 1,
             content = piece,
             metadata = \<lparr>md_level = level sec, md_title = title sec,
                          md_page_start = page_start sec, md_page_end = page_end sec,
                          md_related = related sec\<rparr>\<rparr>]))"

fun sections_loop :: "string \<Rightarrow> int \<Rightarrow> int \<Rightarrow> Section list \<Rightarrow> int \<times> chunk_doc list
    \<Rightarrow> (int \<times> chunk_doc list) option" where
  "sections_loop doc_id max_chars overlap_chars [] st = Some st"
| "sections_loop doc_id max_chars overlap_chars (sec # secs) st =
     (case chunk_text (base_text sec) max_chars overlap_chars of
        None \<Rightarrow> None
      | Some pieces \<Rightarrow>
          sections_loop doc_id max_chars overlap_chars secs (pieces_loop doc_id sec 0 pieces st))"

definition build_chunk_docs :: "string \<Rightarrow> int \<Rightarrow> int \<Rightarrow> Section list \<Rightarrow> chunk_doc list option" where
  "build_chunk_docs doc_id max_chars overlap_chars secs =
     map_option snd (sections_loop doc_id max_chars overlap_chars secs (0, []))"

section \<open>Notions used in the statements and proofs\<close>

text \<open>The right edge of the window that starts at \<open>start\<close>, after the snap to a space.\<close>

definition window_end :: "string \<Rightarrow> int \<Rightarrow> int \<Rightarrow> int" where
  "window_end text max_chars start =
     (let n = int (length text); e0 = min n (start + max_chars) in
      if e0 < n
      then (let space = rfind_space text start e0
            in if space \<noteq> - 1 \<and> space > start + half_trunc max_chars then space else e0)
      else e0)"

text \<open>The start of the next window.\<close>

definition next_start :: "int \<Rightarrow> int \<Rightarrow> int" where
  "next_start e overlap =
     (let s1 = max 0 (e - max 0 overlap) in if s1 = e then s1 + 1 else s1)"

text \<open>A stored piece: at most \<open>max_chars\<close> long, trimmed, and cut out of the text in one run.\<close>

definition piece_ok :: "string \<Rightarrow> int \<Rightarrow> string \<Rightarrow> bool" where
  "piece_ok text max_chars c =
     (int (length c) \<le> max_chars \<and> py_strip c = c \<and> sublist c text)"

text \<open>The combined title and body of a section, before any trimming.\<close>

definition combined_text :: "Section \<Rightarrow> string" where
  "combined_text sec =
     (if sec_text sec \<noteq> [] then title sec @ [CHR 0x0A, CHR 0x0A] @ sec_text sec
      else title sec)"

text \<open>The identifier of the \<open>k\<close>-th section of a run.\<close>

definition sec_name :: "nat \<Rightarrow> string" where
  "sec_name k = ''sec_'' @ py_str k"

text \<open>The value of a string of decimal digits.\<close>

definition digits_value :: "nat \<Rightarrow> string \<Rightarrow> nat" where
  "digits_value acc ds = foldl (\<lambda>a c. 10 * a + digit_val c) acc ds"

text \<open>Lines joined by single newlines.\<close>

fun join_lines :: "string list \<Rightarrow> string" where
  "join_lines [] = []"
| "join_lines [x] = x"
| "join_lines (x # y # ys) = x @ [CHR 0x0A] @ join_lines (y # ys)"

text \<open>The trimmed, non-empty line texts of a document, in reading order.\<close>

definition line_texts :: "line_dict list \<Rightarrow> string list" where
  "line_texts ls = filter (\<lambda>t. t \<noteq> []) (map (\<lambda>l. py_strip (or_empty (ln_text l))) ls)"

definition document_texts :: "page_dict list \<Rightarrow> string list" where
  "document_texts pages = concat (map (\<lambda>p. line_texts (lines p)) pages)"

text \<open>
  The lines a section stands for, given the lines of its body: a level-2 section was opened
  by a heading line, which is its title; the title of the level-3 section is synthetic.
\<close>

definition section_lines :: "Section \<times> string list \<Rightarrow> string list" where
  "section_lines sb = (if level (fst sb) = 2 then [title (fst sb)] else []) @ snd sb"

text \<open>A paragraph that opens a section in the DOCX variant: heading level and non-empty text.\<close>

definition opens_section :: "para_dict \<Rightarrow> bool" where
  "opens_section p =
     (case level_from_style (or_empty (p_style p)) of
        Inl err \<Rightarrow> False
      | Inr lvl \<Rightarrow> lvl \<le> 6 \<and> py_strip (or_empty (p_text p)) \<noteq> [])"

text \<open>A paragraph that the DOCX loop passes without raising and without opening a section.\<close>

definition passes_quietly :: "para_dict \<Rightarrow> bool" where
  "passes_quietly p =
     (case level_from_style (or_empty (p_style p)) of
        Inl err \<Rightarrow> False
      | Inr lvl \<Rightarrow> \<not> (lvl \<le> 6 \<and> py_strip (or_empty (p_text p)) \<noteq> []))"

text \<open>The pieces of one section; none when the chunker does not return.\<close>

definition pieces_of :: "int \<Rightarrow> int \<Rightarrow> Section \<Rightarrow> string list" where
  "pieces_of max_chars overlap_chars sec =
     (case chunk_text (base_text sec) max_chars overlap_chars of
        None \<Rightarrow> []
      | Some ps \<Rightarrow> ps)"

text \<open>
  The invariant of both sectionizer loops: the sections built so far, the open one last,
  are named \<open>sec_1, sec_2, \<dots>\<close> up to the counter, and each has its page range in order.
\<close>

definition run_ok :: "loop_state \<Rightarrow> bool" where
  "run_ok st =
     (map section_id (flush st) = map sec_name [1..<Suc (sid st)] \<and>
      list_all (\<lambda>s. page_start s \<le> page_end s) (flush st))"

text \<open>
  A list of sections covers a list of line texts when each section's body is the
  newline-join of some non-empty lines and the sections' lines, one section after the
  other, are exactly the given texts.
\<close>

definition covers :: "Section list \<Rightarrow> string list \<Rightarrow> bool" where
  "covers secs texts =
     (\<exists>bodies. length bodies = length secs \<and>
        map sec_text secs = map join_lines bodies \<and>
        list_all (\<lambda>b. [] \<notin> set b) bodies \<and>
        concat (map section_lines (zip secs bodies)) = texts)"

text \<open>The first whitespace-separated token of a string, if there is one.\<close>

definition first_token :: "string \<Rightarrow> string option" where
  "first_token s = (case py_split s of [] \<Rightarrow> None | tok # _ \<Rightarrow> Some tok)"

section \<open>Example documents\<close>

definition example_paragraphs :: "para_dict list" where
  "example_paragraphs =
     [\<lparr>p_text = Some ''Lead'', p_style = Some ''Normal''\<rparr>,
      \<lparr>p_text = Some '' Intro '', p_style = Some ''Heading 1''\<rparr>,
      \<lparr>p_text = Some ''Hello world.'', p_style = Some ''Normal''\<rparr>,
      \<lparr>p_text = Some ''Details'', p_style = Some ''Heading 2''\<rparr>,
      \<lparr>p_text = Some ''More text.'', p_style = None\<rparr>]"

definition example_pages :: "page_dict list" where
  "example_pages =
     [\<lparr>page_num = 1,
       lines = [\<lparr>ln_text = Some ''lead'', ln_size = None, ln_bold = False\<rparr>,
                \<lparr>ln_text = Some '' Title '', ln_size = Some 12, ln_bold = True\<rparr>,
                \<lparr>ln_text = Some ''  '', ln_size = Some 12, ln_bold = True\<rparr>,
                \<lparr>ln_text = Some ''body a'', ln_size = None, ln_bold = False\<rparr>]\<rparr>,
      \<lparr>page_num = 2,
       lines = [\<lparr>ln_text = Some ''body b'', ln_size = None, ln_bold = False\<rparr>]\<rparr>]"

section \<open>The PDF sectionizer at threshold zero\<close>

text \<open>
  C1. The claim: with no positive font size in the document the threshold is 0, no line
  is a heading, and at most the one Preamble section is emitted. The code at a one-page
  document of two lines, one with size 0 and one without a size: the threshold is 0, and
  since \<open>0 \<ge> 0\<close> both lines are headings; two level-2 sections come out and no Preamble.
\<close>

theorem pdf_zero_threshold_all_headings:
  "compute_size_thresholds
     [\<lparr>page_num = 1,
       lines = [\<lparr>ln_text = Some ''a'', ln_size = Some 0, ln_bold = False\<rparr>,
                \<lparr>ln_text = Some ''b'', ln_size = None, ln_bold = False\<rparr>]\<rparr>] = 0
   \<and> sectionize_pdf_lines
     [\<lparr>page_num = 1,
       lines = [\<lparr>ln_text = Some ''a'', ln_size = Some 0, ln_bold = False\<rparr>,
                \<lparr>ln_text = Some ''b'', ln_size = None, ln_bold = False\<rparr>]\<rparr>] =
     [\<lparr>section_id = ''sec_1'', level = 2, title = ''a'', sec_text = [],
       page_start = 1, page_end = 1, related = []\<rparr>,
      \<lparr>section_id = ''sec_2'', level = 2, title = ''b'', sec_text = [],
       page_start = 1, page_end = 1, related = []\<rparr>]"
  by (simp add: sectionize_pdf_lines_def compute_size_thresholds_def positive_sizes_def
      pdf_page_def pdf_step_def init_state_def flush_def is_heading_def or_empty_def
      py_strip_def isspace_def Let_def)

section \<open>Trimming, slicing and searching\<close>

lemma sublist_dropWhile: "sublist (dropWhile P xs) xs"
  by (metis suffix_dropWhile suffix_imp_sublist)

lemma sublist_py_strip: "sublist (py_strip s) s"
proof -
  have "suffix (dropWhile isspace (rev (dropWhile isspace s))) (rev (dropWhile isspace s))"
    by (rule suffix_dropWhile)
  then have "prefix (py_strip s) (dropWhile isspace s)"
    unfolding py_strip_def by (metis rev_rev_ident suffix_to_prefix)
  then have "sublist (py_strip s) (dropWhile isspace s)"
    by (rule prefix_imp_sublist)
  then show ?thesis
    using sublist_dropWhile sublist_order.order_trans by blast
qed

lemma length_py_strip: "length (py_strip s) \<le> length s"
  using sublist_py_strip sublist_length_le by blast

lemma py_strip_idem: "py_strip (py_strip s) = py_strip s"
proof -
  let ?d = "dropWhile isspace s"
  let ?r = "dropWhile isspace (rev ?d)"
  have a: "dropWhile isspace (rev ?r) = rev ?r"
  proof (cases "rev ?r")
    case Nil then show ?thesis by (metis dropWhile.simps(1))
  next
    case (Cons x xs)
    then have "?r \<noteq> []" by auto
    then have "?d \<noteq> []" by (metis dropWhile.simps(1) rev.simps(1))
    then have "\<not> isspace (hd ?d)" by (rule hd_dropWhile)
    moreover have "prefix (rev ?r) ?d"
      by (metis rev_rev_ident suffix_dropWhile suffix_to_prefix)
    then have "hd (rev ?r) = hd ?d" using Cons by (auto simp: prefix_def)
    ultimately show ?thesis using Cons by simp
  qed
  have b: "dropWhile isspace ?r = ?r" 
    by (metis dropWhile_idem)
  show ?thesis unfolding py_strip_def a by (simp add: b)
qed

lemma sublist_py_slice: "sublist (py_slice t a b) t"
  unfolding py_slice_def
  by (meson sublist_drop sublist_order.order_trans sublist_take)

lemma length_py_slice: "length (py_slice t a b) \<le> nat b - nat a"
  unfolding py_slice_def by simp

lemma rfind_space_bounds:
  assumes "rfind_space t a b \<noteq> - 1" "0 \<le> a"
  shows "a \<le> rfind_space t a b \<and> rfind_space t a b < b"
proof -
  obtain i rest where f: "filter (\<lambda>i. t ! i = CHR '' '') (rev [nat a..<nat b]) = i # rest"
    using assms(1) unfolding rfind_space_def by (auto split: list.splits)
  then have "i \<in> set (filter (\<lambda>i. t ! i = CHR '' '') (rev [nat a..<nat b]))" by simp
  then have "nat a \<le> i \<and> i < nat b" by auto
  moreover have "rfind_space t a b = int i" unfolding rfind_space_def using f by simp
  ultimately show ?thesis using assms(2) by auto
qed

section \<open>The chunking loop\<close>

text \<open>One round of the loop, in terms of the window's end and the next start.\<close>

lemma chunk_loop_unfold:
  "chunk_loop t mx ov s cs =
     (if \<not> s < int (length t) then Some cs
      else if window_end t mx s \<ge> int (length t)
           then Some (cs @ [py_strip (py_slice t s (window_end t mx s))])
           else chunk_loop t mx ov (next_start (window_end t mx s) ov)
                  (cs @ [py_strip (py_slice t s (window_end t mx s))]))"
  by (subst chunk_loop.simps) (simp add: Let_def window_end_def next_start_def)

lemma window_end_bounds:
  assumes "0 \<le> s" "s < int (length t)" "0 < mx"
  shows "s < window_end t mx s" "window_end t mx s \<le> s + mx"
    "window_end t mx s \<le> int (length t)"
proof -
  let ?n = "int (length t)"
  let ?e0 = "min ?n (s + mx)"
  have h: "0 \<le> half_trunc mx" using assms(3) by (simp add: half_trunc_def)
  have e0: "s < ?e0" "?e0 \<le> s + mx" "?e0 \<le> ?n" using assms by auto
  have r: "rfind_space t s ?e0 \<noteq> - 1 \<Longrightarrow> rfind_space t s ?e0 < ?e0"
    using rfind_space_bounds [of t s ?e0] assms(1) by simp
  show "s < window_end t mx s"
    using e0 h by (auto simp: window_end_def Let_def)
  show "window_end t mx s \<le> s + mx"
    using e0 r by (auto simp: window_end_def Let_def)
  show "window_end t mx s \<le> int (length t)"
    using e0 r by (auto simp: window_end_def Let_def)
qed

lemma window_end_progress:
  assumes "0 \<le> s" "s < int (length t)" "0 < mx" "window_end t mx s < int (length t)"
  shows "s + half_trunc mx < window_end t mx s"
proof -
  let ?n = "int (length t)"
  let ?e0 = "min ?n (s + mx)"
  have h: "half_trunc mx < mx" using assms(3) by (simp add: half_trunc_def)
  show ?thesis
  proof (cases "?e0 < ?n")
    case True
    then have "?e0 = s + mx" by auto
    then show ?thesis using h True by (auto simp: window_end_def Let_def)
  next
    case False
    then have "window_end t mx s = ?e0" by (simp add: window_end_def Let_def)
    then show ?thesis using False assms(4) by auto
  qed
qed

lemma next_start_nonneg: "0 \<le> next_start e ov"
  by (auto simp: next_start_def Let_def)

lemma piece_ok_window:
  assumes "0 \<le> s" "s < int (length t)" "0 < mx"
  shows "piece_ok t mx (py_strip (py_slice t s (window_end t mx s)))"
proof -
  let ?e = "window_end t mx s"
  have "length (py_slice t s ?e) \<le> nat ?e - nat s" by (rule length_py_slice)
  also have "\<dots> \<le> nat mx" using window_end_bounds [OF assms] assms(1) by auto
  finally have "length (py_strip (py_slice t s ?e)) \<le> nat mx"
    using length_py_strip [of "py_slice t s ?e"] by linarith
  then have "int (length (py_strip (py_slice t s ?e))) \<le> mx" using assms(3) by linarith
  moreover have "sublist (py_strip (py_slice t s ?e)) t"
    using sublist_py_strip sublist_py_slice sublist_order.order_trans by blast
  ultimately show ?thesis by (simp add: piece_ok_def py_strip_idem)
qed

text \<open>Every piece the loop stores is bounded, trimmed and cut out of the text.\<close>

lemma chunk_loop_pieces:
  assumes "chunk_loop t mx ov s cs = Some r"
  shows "0 \<le> s \<longrightarrow> 0 < mx \<longrightarrow> list_all (piece_ok t mx) cs \<longrightarrow> list_all (piece_ok t mx) r"
  using assms
proof (induction t mx ov s cs r rule: chunk_loop.raw_induct [rotated 1, consumes 1, case_names step])
  case (step f t mx ov s cs r)
  show ?case
  proof (intro impI)
    assume s: "0 \<le> s" and mx: "0 < mx" and cs: "list_all (piece_ok t mx) cs"
    let ?e = "window_end t mx s"
    let ?cs = "cs @ [py_strip (py_slice t s ?e)]"
    show "list_all (piece_ok t mx) r"
    proof (cases "s < int (length t)")
      case False
      then have "r = cs" using step(2) by (simp add: Let_def)
      then show ?thesis using cs by simp
    next
      case True
      have ok: "list_all (piece_ok t mx) ?cs"
        using cs piece_ok_window [OF s True mx] by simp
      show ?thesis
      proof (cases "?e \<ge> int (length t)")
        case True
        then have "r = ?cs" using step(2) \<open>s < int (length t)\<close>
          by (simp add: Let_def window_end_def)
        then show ?thesis using ok by simp
      next
        case False
        then have "f t mx ov (next_start ?e ov) ?cs = Some r"
          using step(2) \<open>s < int (length t)\<close>
          by (simp add: Let_def window_end_def next_start_def)
        from step(1) [OF this] show ?thesis using ok mx next_start_nonneg by blast
      qed
    qed
  qed
qed

text \<open>
  The loop returns whenever the overlap is at most half of \<open>max_chars\<close> (rounded down):
  then each round moves \<open>start\<close> forward. The configured defaults, 1500 and 200, are of
  this kind.
\<close>

lemma chunk_loop_terminates:
  assumes "0 < mx" "ov \<le> half_trunc mx" "0 \<le> s"
  shows "\<exists>r. chunk_loop t mx ov s cs = Some r"
  using assms(3)
proof (induction "nat (int (length t) - s)" arbitrary: s cs rule: less_induct)
  case less
  let ?n = "int (length t)"
  let ?e = "window_end t mx s"
  show ?case
  proof (cases "s < ?n")
    case False
    then show ?thesis by (subst chunk_loop_unfold) simp
  next
    case True
    show ?thesis
    proof (cases "?e \<ge> ?n")
      case True
      then show ?thesis using \<open>s < ?n\<close> by (subst chunk_loop_unfold) simp
    next
      case False
      then have lt: "?e < ?n" by simp
      have p: "s + half_trunc mx < ?e"
        using window_end_progress [OF less.prems True assms(1) lt] .
      have e: "s < ?e" using window_end_bounds(1) [OF less.prems True assms(1)] .
      have "s < next_start ?e ov"
        using p e assms(2) less.prems by (auto simp: next_start_def Let_def max_def)
      then have m: "nat (?n - next_start ?e ov) < nat (?n - s)" using True by linarith
      have "0 \<le> next_start ?e ov" by (rule next_start_nonneg)
      from less.hyps [OF m this]
      obtain r where "chunk_loop t mx ov (next_start ?e ov)
          (cs @ [py_strip (py_slice t s ?e)]) = Some r" by blast
      then show ?thesis using True False by (subst chunk_loop_unfold) simp
    qed
  qed
qed

lemma rfind_space_none:
  assumes "CHR '' '' \<notin> set t" "nat stop \<le> length t"
  shows "rfind_space t start stop = - 1"
proof -
  have "filter (\<lambda>i. t ! i = CHR '' '') (rev [nat start..<nat stop]) = []"
  proof -
    have "t ! i \<noteq> CHR '' ''" if "i < nat stop" for i
      using that assms nth_mem [of i t] by (metis order_less_le_trans)
    then show ?thesis by (auto simp: filter_empty_conv)
  qed
  then show ?thesis by (simp add: rfind_space_def)
qed

text \<open>
  With an overlap of at least \<open>max_chars\<close>, a text longer than \<open>max_chars\<close> and without a
  space, the first round ends with \<open>start = 0\<close> again: \<open>end - overlap\<close> is clamped to 0,
  which differs from \<open>end\<close>, so the forced step does not fire.
\<close>

lemma chunk_loop_stuck:
  assumes "chunk_loop t mx ov s cs = Some r"
  shows "\<not> (s = 0 \<and> 0 < mx \<and> mx \<le> ov \<and> mx < int (length t) \<and> CHR '' '' \<notin> set t)"
  using assms
proof (induction t mx ov s cs r rule: chunk_loop.raw_induct [rotated 1, consumes 1, case_names step])
  case (step f t mx ov s cs r)
  show ?case
  proof
    assume a: "s = 0 \<and> 0 < mx \<and> mx \<le> ov \<and> mx < int (length t) \<and> CHR '' '' \<notin> set t"
    then have "nat mx \<le> length t" by linarith
    with a have "rfind_space t 0 mx = - 1" by (simp add: rfind_space_none)
    with a have w: "window_end t mx s = mx"
      by (auto simp: window_end_def Let_def)
    have n: "next_start mx ov = 0" using a by (auto simp: next_start_def Let_def)
    have lt: "s < int (length t)" and ge: "\<not> window_end t mx s \<ge> int (length t)"
      using a w by auto
    have "f t mx ov (next_start (window_end t mx s) ov)
            (cs @ [py_strip (py_slice t s (window_end t mx s))]) = Some r"
      using step(2) lt ge by (simp add: Let_def window_end_def next_start_def)
    then have "f t mx ov 0 (cs @ [py_strip (py_slice t s mx)]) = Some r"
      by (simp only: w n)
    from step(1) [OF this] show False using a by simp
  qed
qed

lemma chunk_text_diverges:
  assumes "0 < mx" "mx \<le> ov" "mx < int (length t)" "CHR '' '' \<notin> set t"
  shows "chunk_text t mx ov = None"
proof -
  have "chunk_loop t mx ov 0 [] = None"
    using chunk_loop_stuck [of t mx ov 0 "[]"] assms by (cases "chunk_loop t mx ov 0 []") auto
  then show ?thesis using assms(1) by (simp add: chunk_text_def)
qed


lemma chunk_text_terminates:
  assumes "0 < mx" "ov \<le> half_trunc mx"
  shows "\<exists>ps. chunk_text t mx ov = Some ps"
proof -
  obtain r where "chunk_loop t mx ov 0 [] = Some r"
    using chunk_loop_terminates [OF assms, of 0 t "[]"] by auto
  then show ?thesis using assms(1) by (simp add: chunk_text_def)
qed

lemma chunk_text_piece_ok:
  assumes "chunk_text t mx ov = Some ps" "0 < mx"
  shows "list_all (\<lambda>p. p \<noteq> [] \<and> piece_ok t mx p) ps"
proof -
  obtain r where r: "chunk_loop t mx ov 0 [] = Some r" and ps: "ps = filter (\<lambda>c. c \<noteq> []) r"
    using assms by (auto simp: chunk_text_def)
  have "list_all (piece_ok t mx) r"
    using chunk_loop_pieces [OF r] assms(2) by simp
  then show ?thesis unfolding ps by (induction r) auto
qed

text \<open>
  C2. The claim: for every text and every pair of positive \<open>max_chars\<close> and
  \<open>overlap_chars\<close> (also with the overlap at least \<open>max_chars\<close>) the chunking loop
  terminates. The code on a text of ten letters with \<open>max_chars = 5\<close> and
  \<open>overlap_chars = 5\<close>: the loop never returns.
\<close>

theorem chunk_text_diverges_example: "chunk_text ''aaaaaaaaaa'' 5 5 = None"
  by (rule chunk_text_diverges) simp_all

text \<open>
  C3. With \<open>max_chars > 0\<close>, for any text and any overlap, every piece that
  \<^verbatim>\<open>_chunk_text\<close> returns is non-empty, also after trimming, and at most \<open>max_chars\<close>
  characters long; with \<open>max_chars \<le> 0\<close> the whole text is returned as the single piece.
\<close>

theorem chunk_text_pieces_bounded:
  "(max_chars \<le> 0 \<longrightarrow> chunk_text t max_chars overlap = Some [t]) \<and>
   (0 < max_chars \<longrightarrow> chunk_text t max_chars overlap = Some ps \<longrightarrow>
      (\<forall>p \<in> set ps. p \<noteq> [] \<and> py_strip p \<noteq> [] \<and> int (length p) \<le> max_chars))"
proof (intro conjI impI)
  assume "max_chars \<le> 0"
  then show "chunk_text t max_chars overlap = Some [t]" by (simp add: chunk_text_def)
next
  assume "0 < max_chars" and "chunk_text t max_chars overlap = Some ps"
  then have "list_all (\<lambda>p. p \<noteq> [] \<and> piece_ok t max_chars p) ps"
    using chunk_text_piece_ok by blast
  then show "\<forall>p \<in> set ps. p \<noteq> [] \<and> py_strip p \<noteq> [] \<and> int (length p) \<le> max_chars"
    by (auto simp: list_all_iff piece_ok_def)
qed

lemma chunk_example:
  "chunk_text ''hello world, this is text'' 10 3 =
     Some [''hello worl'', ''orld, this'', ''his is'', ''is text'']"
  by code_simp

theorem chunk_text_pieces_bounded_witness:
  "(0::int) \<le> 0 \<and> chunk_text ''abc'' 0 3 = Some [''abc''] \<and> (0::int) < 10 \<and>
   chunk_text ''hello world, this is text'' 10 3 =
     Some [''hello worl'', ''orld, this'', ''his is'', ''is text''] \<and>
   list_all (\<lambda>p. p \<noteq> [] \<and> py_strip p \<noteq> [] \<and> int (length p) \<le> 10)
     [''hello worl'', ''orld, this'', ''his is'', ''is text'']"
  using chunk_text_pieces_bounded [of 0 "''abc''" 3]
    chunk_text_pieces_bounded [of 10 "''hello world, this is text''" 3
      "[''hello worl'', ''orld, this'', ''his is'', ''is text'']"]
    chunk_example
  by simp

lemma sublist_base_text: "sublist (base_text sec) (combined_text sec)"
  by (simp add: base_text_def combined_text_def sublist_py_strip)

text \<open>
  C5. For every section and all chunking parameters, each piece returned for the section's
  source text is a contiguous substring, as it stands and after trimming, of the section's
  combined text: title, two newlines and body when the body is non-empty, else the title.
\<close>

theorem chunk_is_substring:
  assumes "chunk_text (base_text sec) max_chars overlap = Some ps" "p \<in> set ps"
  shows "sublist p (combined_text sec) \<and> sublist (py_strip p) (combined_text sec)"
proof -
  have "sublist p (base_text sec)"
  proof (cases "max_chars \<le> 0")
    case True
    then have "ps = [base_text sec]" using assms(1) by (simp add: chunk_text_def)
    then show ?thesis using assms(2) by simp
  next
    case False
    then have "list_all (\<lambda>p. p \<noteq> [] \<and> piece_ok (base_text sec) max_chars p) ps"
      using chunk_text_piece_ok [OF assms(1)] by simp
    then show ?thesis using assms(2) by (auto simp: list_all_iff piece_ok_def)
  qed
  then have a: "sublist p (combined_text sec)"
    using sublist_base_text sublist_order.order_trans by blast
  moreover have "sublist (py_strip p) (combined_text sec)"
    using a sublist_py_strip sublist_order.order_trans by blast
  ultimately show ?thesis by simp
qed

lemma chunk_section_example:
  "chunk_text (base_text \<lparr>section_id = ''sec_1'', level = 1, title = ''Intro'',
       sec_text = ''Hello world.'', page_start = 1, page_end = 1, related = []\<rparr>) 12 3 =
     Some [''Intro\<newline>\<newline>Hello'', ''llo world.'']"
  by code_simp

theorem chunk_is_substring_witness:
  "chunk_text (base_text \<lparr>section_id = ''sec_1'', level = 1, title = ''Intro'',
       sec_text = ''Hello world.'', page_start = 1, page_end = 1, related = []\<rparr>) 12 3 =
     Some [''Intro\<newline>\<newline>Hello'', ''llo world.''] \<and>
   ''llo world.'' \<in> set [''Intro\<newline>\<newline>Hello'', ''llo world.''] \<and>
   sublist ''llo world.'' (combined_text \<lparr>section_id = ''sec_1'', level = 1, title = ''Intro'',
       sec_text = ''Hello world.'', page_start = 1, page_end = 1, related = []\<rparr>) \<and>
   sublist (py_strip ''llo world.'') (combined_text \<lparr>section_id = ''sec_1'', level = 1,
       title = ''Intro'', sec_text = ''Hello world.'', page_start = 1, page_end = 1,
       related = []\<rparr>)"
  using chunk_is_substring [OF chunk_section_example, of "''llo world.''"] chunk_section_example
  by simp

section \<open>Chunk indices\<close>

text \<open>
  Both loops keep \<^verbatim>\<open>running_index\<close> equal to the number of records built so far, and
  the record at position \<open>i\<close> carries index \<open>i\<close>.
\<close>

lemma pieces_loop_inv:
  assumes "pieces_loop d sec j ps (ri, docs) = (ri', docs')"
    "ri = int (length docs)"
    "map chunk_index docs = map int [0..<length docs]"
  shows "ri' = int (length docs') \<and>
         map chunk_index docs' = map int [0..<length docs'] \<and>
         map content docs' = map content docs @ ps"
  using assms
proof (induction ps arbitrary: j ri docs)
  case Nil
  then show ?case by auto
next
  case (Cons piece rest)
  let ?new = "\<lparr>doc_document_id = d,
             chunk_id = section_id sec @ ''_c'' @ py_str (j + 1),
             chunk_index = ri + 1 - 1,
             content = piece,
             metadata = \<lparr>md_level = level sec, md_title = title sec,
                          md_page_start = page_start sec, md_page_end = page_end sec,
                          md_related = related sec\<rparr>\<rparr>"
  have run: "pieces_loop d sec (j + 1) rest (ri + 1, docs @ [?new]) = (ri', docs')"
    using Cons.prems(1) by (simp add: Let_def)
  have a: "ri + 1 = int (length (docs @ [?new]))"
    using Cons.prems(2) by simp
  have b: "map chunk_index (docs @ [?new]) = map int [0..<length (docs @ [?new])]"
    using Cons.prems(2,3) by simp
  from Cons.IH [OF run a b] show ?case by simp
qed


lemma sections_loop_inv:
  assumes "sections_loop d mx ov secs (ri, docs) = Some (ri', docs')"
    "ri = int (length docs)"
    "map chunk_index docs = map int [0..<length docs]"
  shows "ri' = int (length docs') \<and>
         map chunk_index docs' = map int [0..<length docs'] \<and>
         map content docs' = map content docs @ concat (map (pieces_of mx ov) secs)"
  using assms
proof (induction secs arbitrary: ri docs)
  case Nil
  then show ?case by auto
next
  case (Cons sec secs)
  obtain ps where ps: "chunk_text (base_text sec) mx ov = Some ps"
    using Cons.prems(1) by (auto split: option.splits)
  obtain r1 d1 where st1: "pieces_loop d sec 0 ps (ri, docs) = (r1, d1)"
    by (cases "pieces_loop d sec 0 ps (ri, docs)")
  have run: "sections_loop d mx ov secs (r1, d1) = Some (ri', docs')"
    using Cons.prems(1) ps st1 by simp
  have p: "r1 = int (length d1) \<and> map chunk_index d1 = map int [0..<length d1] \<and>
      map content d1 = map content docs @ ps"
    using pieces_loop_inv [OF st1 Cons.prems(2) Cons.prems(3)] .
  have po: "pieces_of mx ov sec = ps" using ps by (simp add: pieces_of_def)
  have "ri' = int (length docs') \<and> map chunk_index docs' = map int [0..<length docs'] \<and>
      map content docs' = map content d1 @ concat (map (pieces_of mx ov) secs)"
    using Cons.IH [OF run] p by blast
  then show ?case using p po by simp
qed

text \<open>
  C9. Within one document's result the chunk indices are \<open>0, 1, 2, \<dots>\<close> in the order of
  the records: zero-based, unique and strictly increasing across all sections; the records
  follow the order of the sections and, within a section, the order of its pieces.
\<close>

theorem chunk_index_sequential:
  assumes "build_chunk_docs doc_id max_chars overlap_chars secs = Some docs"
  shows "map chunk_index docs = map int [0..<length docs] \<and>
         sorted_wrt (<) (map chunk_index docs) \<and>
         distinct (map chunk_index docs) \<and>
         map content docs = concat (map (pieces_of max_chars overlap_chars) secs)"
proof -
  obtain r where run: "sections_loop doc_id max_chars overlap_chars secs (0, []) = Some (r, docs)"
    using assms by (auto simp: build_chunk_docs_def)
  have inv: "map chunk_index docs = map int [0..<length docs] \<and>
      map content docs = concat (map (pieces_of max_chars overlap_chars) secs)"
    using sections_loop_inv [OF run] by simp
  have s: "sorted_wrt (<) (map int [0..<length docs])"
    by (simp add: sorted_wrt_map)
  have "distinct (map int [0..<length docs])"
    by (simp add: distinct_map)
  with inv s show ?thesis by simp
qed


lemma chunk_docs_example:
  "build_chunk_docs ''d'' 10 3
     [\<lparr>section_id = ''sec_1'', level = 2, title = ''Title'', sec_text = ''hello world foo'',
       page_start = 1, page_end = 1, related = []\<rparr>,
      \<lparr>section_id = ''sec_2'', level = 2, title = ''Other'', sec_text = [],
       page_start = 1, page_end = 1, related = []\<rparr>] =
   Some
    [\<lparr>doc_document_id = ''d'', chunk_id = ''sec_1_c1'', chunk_index = 0,
      content = ''Title\<newline>\<newline>hel'',
      metadata = \<lparr>md_level = 2, md_title = ''Title'', md_page_start = 1, md_page_end = 1,
                   md_related = []\<rparr>\<rparr>,
     \<lparr>doc_document_id = ''d'', chunk_id = ''sec_1_c2'', chunk_index = 1,
      content = ''hello worl'',
      metadata = \<lparr>md_level = 2, md_title = ''Title'', md_page_start = 1, md_page_end = 1,
                   md_related = []\<rparr>\<rparr>,
     \<lparr>doc_document_id = ''d'', chunk_id = ''sec_1_c3'', chunk_index = 2,
      content = ''orld foo'',
      metadata = \<lparr>md_level = 2, md_title = ''Title'', md_page_start = 1, md_page_end = 1,
                   md_related = []\<rparr>\<rparr>,
     \<lparr>doc_document_id = ''d'', chunk_id = ''sec_2_c1'', chunk_index = 3,
      content = ''Other'',
      metadata = \<lparr>md_level = 2, md_title = ''Other'', md_page_start = 1, md_page_end = 1,
                   md_related = []\<rparr>\<rparr>]"
  by code_simp

theorem chunk_index_sequential_witness:
  "\<exists>docs. build_chunk_docs ''d'' 10 3
     [\<lparr>section_id = ''sec_1'', level = 2, title = ''Title'', sec_text = ''hello world foo'',
       page_start = 1, page_end = 1, related = []\<rparr>,
      \<lparr>section_id = ''sec_2'', level = 2, title = ''Other'', sec_text = [],
       page_start = 1, page_end = 1, related = []\<rparr>] = Some docs \<and>
     map chunk_index docs = [0, 1, 2, 3] \<and>
     map content docs = [''Title\<newline>\<newline>hel'', ''hello worl'', ''orld foo'', ''Other'']"
  using chunk_index_sequential [OF chunk_docs_example] chunk_docs_example
  by simp

section \<open>The dispatcher's unsupported routes\<close>

text \<open>
  C6, as amended. The routes are tried in the order DOCX, PDF, legacy \<^verbatim>\<open>.doc\<close>, unsupported,
  each by MIME type or by the suffix of the lower-cased path. For every readable file that
  neither the DOCX route nor the PDF route takes, \<^verbatim>\<open>process_file\<close> returns without raising,
  with no sections and a note in \<^verbatim>\<open>meta\<close>: the legacy-normalization note when the MIME
  type is \<^verbatim>\<open>application/msword\<close> or the path ends in \<^verbatim>\<open>.doc\<close>, and otherwise the note
  \<^verbatim>\<open>Unsupported MIME: \<close> followed by the MIME type.
\<close>

theorem process_file_unsupported:
  assumes "sniff_file w p = Inr info"
    "mime info \<noteq> ''application/vnd.openxmlformats-officedocument.wordprocessingml.document''"
    "mime info \<noteq> ''application/x-zip-compressed''"
    "\<not> endswith (py_lower p) ''.docx''"
    "mime info \<noteq> ''application/pdf''"
    "\<not> endswith (py_lower p) ''.pdf''"
  shows "process_file w doc_id p =
     Inr \<lparr>document_id = doc_id, res_mime = mime info, res_sections = [],
          meta = [''path'' \<mapsto> MStr p, ''mime'' \<mapsto> MStr (mime info), ''ext'' \<mapsto> MStr (ext info),
                  ''note'' \<mapsto> MStr (if mime info = ''application/msword'' \<or> endswith (py_lower p) ''.doc''
                     then ''Legacy .doc normalization to .docx required before extraction''
                     else ''Unsupported MIME: '' @ mime info)]\<rparr>"
  using assms by (simp add: process_file_def Let_def)

lemma lower_doc: "py_lower ''/tmp/a.doc'' = ''/tmp/a.doc''"
  by code_simp

lemma lower_bin: "py_lower ''/tmp/a.bin'' = ''/tmp/a.bin''"
  by code_simp

theorem process_file_unsupported_witness:
  "process_file
     \<lparr>read_file = (\<lambda>f. Inr ''xyz''), filetype_guess = (\<lambda>b. Some (''application/msword'', ''doc'')),
      extract_docx_fast = (\<lambda>f. Inl ExtractionError),
      extract_pdf_native_text = (\<lambda>f. Inl ExtractionError)\<rparr> ''d1'' ''/tmp/a.doc'' =
     Inr \<lparr>document_id = ''d1'', res_mime = ''application/msword'', res_sections = [],
          meta = [''path'' \<mapsto> MStr ''/tmp/a.doc'', ''mime'' \<mapsto> MStr ''application/msword'',
                  ''ext'' \<mapsto> MStr ''doc'',
                  ''note'' \<mapsto> MStr ''Legacy .doc normalization to .docx required before extraction'']\<rparr>
   \<and> process_file
     \<lparr>read_file = (\<lambda>f. Inr ''xyz''), filetype_guess = (\<lambda>b. None),
      extract_docx_fast = (\<lambda>f. Inl ExtractionError),
      extract_pdf_native_text = (\<lambda>f. Inl ExtractionError)\<rparr> ''d2'' ''/tmp/a.bin'' =
     Inr \<lparr>document_id = ''d2'', res_mime = ''application/octet-stream'', res_sections = [],
          meta = [''path'' \<mapsto> MStr ''/tmp/a.bin'', ''mime'' \<mapsto> MStr ''application/octet-stream'',
                  ''ext'' \<mapsto> MStr [],
                  ''note'' \<mapsto> MStr ''Unsupported MIME: application/octet-stream'']\<rparr>"
  using process_file_unsupported [of
      "\<lparr>read_file = (\<lambda>f. Inr ''xyz''), filetype_guess = (\<lambda>b. Some (''application/msword'', ''doc'')),
        extract_docx_fast = (\<lambda>f. Inl ExtractionError),
        extract_pdf_native_text = (\<lambda>f. Inl ExtractionError)\<rparr>" "''/tmp/a.doc''"
      "\<lparr>path = ''/tmp/a.doc'', mime = ''application/msword'', ext = ''doc''\<rparr>" "''d1''"]
    process_file_unsupported [of
      "\<lparr>read_file = (\<lambda>f. Inr ''xyz''), filetype_guess = (\<lambda>b. None),
        extract_docx_fast = (\<lambda>f. Inl ExtractionError),
        extract_pdf_native_text = (\<lambda>f. Inl ExtractionError)\<rparr>" "''/tmp/a.bin''"
      "\<lparr>path = ''/tmp/a.bin'', mime = ''application/octet-stream'', ext = []\<rparr>" "''d2''"]
  by (simp add: sniff_file_def lower_doc lower_bin endswith_def)

text \<open>
  The claim as stated fails for a file that an earlier route takes: a PDF stored under a
  path that ends in \<^verbatim>\<open>.doc\<close> is sectionized as a PDF and carries no note.
\<close>

lemma lower_report: "py_lower ''/tmp/report.doc'' = ''/tmp/report.doc''"
  by code_simp

theorem process_file_doc_suffix_counterexample:
  "process_file
     \<lparr>read_file = (\<lambda>f. Inr ''%PDF-1.4''),
      filetype_guess = (\<lambda>b. Some (''application/pdf'', ''pdf'')),
      extract_docx_fast = (\<lambda>f. Inl ExtractionError),
      extract_pdf_native_text = (\<lambda>f. Inr [\<lparr>pt_page_num = 1,
         pt_lines = [\<lparr>ln_text = Some ''Hello'', ln_size = Some 12, ln_bold = False\<rparr>]\<rparr>])\<rparr>
     ''d'' ''/tmp/report.doc'' =
   Inr \<lparr>document_id = ''d'', res_mime = ''application/pdf'',
        res_sections = [\<lparr>section_id = ''sec_1'', level = 2, title = ''Hello'', sec_text = [],
                          page_start = 1, page_end = 1, related = []\<rparr>],
        meta = [''path'' \<mapsto> MStr ''/tmp/report.doc'', ''mime'' \<mapsto> MStr ''application/pdf'',
                ''ext'' \<mapsto> MStr ''pdf'']\<rparr>"
  by (simp add: process_file_def sniff_file_def lower_report endswith_def Let_def
      sectionize_pdf_lines_def compute_size_thresholds_def positive_sizes_def
      pdf_page_def pdf_step_def init_state_def flush_def is_heading_def or_empty_def
      py_strip_def isspace_def)

section \<open>Decimal numerals\<close>

text \<open>\<^verbatim>\<open>str\<close> prints decimal digits only, and \<^verbatim>\<open>int\<close> reads them back.\<close>

declare py_str.simps [simp del]

lemma digit_char:
  assumes "k < 10"
  shows "digit_val (''0123456789'' ! k) = k \<and> is_decimal (''0123456789'' ! k)"
proof -
  from assms have "k = 0 \<or> k = 1 \<or> k = 2 \<or> k = 3 \<or> k = 4 \<or> k = 5
      \<or> k = 6 \<or> k = 7 \<or> k = 8 \<or> k = 9" by arith
  then show ?thesis
    by (elim disjE) (simp_all add: digit_val_def is_decimal_def)
qed

lemma py_str_nonempty: "py_str n \<noteq> []"
  by (subst py_str.simps) simp

lemma py_str_decimal: "list_all is_decimal (py_str n)"
proof (induction n rule: py_str.induct)
  case (1 n)
  show ?case
  proof (cases "n < 10")
    case True
    then show ?thesis using digit_char [of n] by (subst py_str.simps) simp
  next
    case False
    then show ?thesis using 1 digit_char [of "n mod 10"] by (subst py_str.simps) simp
  qed
qed

lemma digits_value_py_str: "digits_value 0 (py_str n) = n"
proof (induction n rule: py_str.induct)
  case (1 n)
  show ?case
  proof (cases "n < 10")
    case True
    then show ?thesis using digit_char [of n]
      by (subst py_str.simps) (simp add: digits_value_def)
  next
    case False
    have "digits_value 0 (py_str (n div 10) @ [''0123456789'' ! (n mod 10)]) =
        10 * digits_value 0 (py_str (n div 10)) + digit_val (''0123456789'' ! (n mod 10))"
      by (simp add: digits_value_def)
    also have "\<dots> = 10 * (n div 10) + n mod 10"
      using 1 False digit_char [of "n mod 10"] by simp
    also have "\<dots> = n" by simp
    finally show ?thesis using False by (subst py_str.simps) simp
  qed
qed

lemma py_str_inj: "py_str a = py_str b \<Longrightarrow> a = b"
  by (metis digits_value_py_str)

lemma sec_name_inj: "inj sec_name"
  by (auto simp: inj_on_def sec_name_def dest: py_str_inj)

lemma read_digits_decimal:
  "list_all is_decimal ds \<Longrightarrow> read_digits acc ds = Some (digits_value acc ds)"
  by (induction ds arbitrary: acc) (simp_all add: digits_value_def)

lemma py_int_digits:
  assumes "ds \<noteq> []" "list_all is_decimal ds" "length ds \<le> max_str_digits"
  shows "py_int ds = Some (int (digits_value 0 ds))"
proof -
  obtain c cs where s: "ds = c # cs" using assms(1) by (cases ds) auto
  have c: "is_decimal c" using assms(2) s by simp
  then have ns: "c \<noteq> CHR ''-''" "c \<noteq> CHR ''+''" by (auto simp: is_decimal_def)
  have f: "filter is_decimal ds = ds" using assms(2) by (simp add: list_all_iff)
  have "read_digits 0 ds = Some (digits_value 0 ds)"
    by (rule read_digits_decimal [OF assms(2)])
  then have "read_unsigned ds = Some (digits_value 0 ds)"
    unfolding read_unsigned_def f using c s assms(3) by (simp del: read_digits.simps)
  then show ?thesis using ns unfolding s by (simp add: py_int_def)
qed

lemma py_int_too_long:
  assumes "list_all is_decimal ds" "length ds > max_str_digits"
  shows "py_int ds = None"
proof -
  obtain c cs where s: "ds = c # cs" using assms(2) by (cases ds) auto
  have c: "is_decimal c" using assms(1) s by simp
  then have ns: "c \<noteq> CHR ''-''" "c \<noteq> CHR ''+''" by (auto simp: is_decimal_def)
  have f: "filter is_decimal ds = ds" using assms(1) by (simp add: list_all_iff)
  have "read_unsigned ds = None"
    unfolding read_unsigned_def f using assms(2) by simp
  then show ?thesis using ns unfolding s by (simp add: py_int_def)
qed

lemma py_int_py_str:
  "length (py_str n) \<le> max_str_digits \<Longrightarrow> py_int (py_str n) = Some (int n)"
  using py_int_digits [OF py_str_nonempty py_str_decimal, of n] digits_value_py_str [of n]
  by simp

text \<open>A number below \<open>10 ^ k\<close> is printed with at most \<open>k\<close> digits.\<close>

lemma length_py_str: "0 < k \<Longrightarrow> n < 10 ^ k \<Longrightarrow> length (py_str n) \<le> k"
proof (induction n arbitrary: k rule: py_str.induct)
  case (1 n)
  show ?case
  proof (cases "n < 10")
    case True
    then show ?thesis using "1.prems"(1) by (subst py_str.simps) simp
  next
    case False
    obtain j where k: "k = Suc j" using "1.prems"(1) by (cases k) auto
    have j: "0 < j" using False "1.prems"(2) k by (cases j) auto
    have "n div 10 < 10 ^ j" using "1.prems"(2) k by (simp add: less_mult_imp_div_less mult.commute)
    from "1.IH" [OF False j this] show ?thesis using False k by (subst py_str.simps) simp
  qed
qed

section \<open>Section identifiers and page ranges\<close>

lemma flush_open: "flush \<lparr>sections = ss, current = Some c, sid = k\<rparr> = ss @ [c]"
  by (simp add: flush_def)

lemma run_ok_init: "run_ok init_state"
  by (simp add: run_ok_def init_state_def flush_def)

lemma run_ok_open:
  assumes "run_ok st" "section_id c = sec_name (sid st + 1)" "page_start c \<le> page_end c"
  shows "run_ok \<lparr>sections = flush st, current = Some c, sid = sid st + 1\<rparr>"
  using assms by (simp add: run_ok_def flush_open)

lemma run_ok_update:
  assumes "run_ok st" "current st = Some c" "section_id c' = section_id c"
    "page_start c' \<le> page_end c'"
  shows "run_ok (st\<lparr>current := Some c'\<rparr>)"
  using assms by (simp add: run_ok_def flush_def)

lemma run_ok_docx_step:
  assumes "run_ok st" "docx_step st p = Inr st'"
  shows "run_ok st'"
proof -
  obtain lvl where lvl: "level_from_style (or_empty (p_style p)) = Inr lvl"
    using assms(2) by (cases "level_from_style (or_empty (p_style p))") (auto simp: docx_step_def)
  let ?t = "py_strip (or_empty (p_text p))"
  show ?thesis
  proof (cases "lvl \<le> 6 \<and> ?t \<noteq> []")
    case True
    then have "st' = \<lparr>sections = flush st,
        current = Some \<lparr>section_id = ''sec_'' @ py_str (sid st + 1), level = lvl,
                        title = ?t, sec_text = [], page_start = 1, page_end = 1,
                        related = []\<rparr>,
        sid = sid st + 1\<rparr>"
      using assms(2) lvl by (simp add: docx_step_def Let_def)
    then show ?thesis using run_ok_open [OF assms(1)] by (simp add: sec_name_def)
  next
    case False
    show ?thesis
    proof (cases "current st")
      case None
      then have "st' = st" using assms(2) lvl False by (auto simp: docx_step_def Let_def)
      then show ?thesis using assms(1) by simp
    next
      case (Some c)
      show ?thesis
      proof (cases "?t = []")
        case True
        then have "st' = st" using assms(2) lvl Some by (auto simp: docx_step_def Let_def)
        then show ?thesis using assms(1) by simp
      next
        case nonempty: False
        then have st': "st' = st\<lparr>current := Some (append_line c ?t)\<rparr>"
          using assms(2) lvl Some False by (auto simp: docx_step_def Let_def)
        have "page_start c \<le> page_end c"
          using assms(1) Some by (simp add: run_ok_def flush_def)
        then show ?thesis unfolding st'
          using run_ok_update [OF assms(1) Some, of "append_line c ?t"]
          by (simp add: append_line_def)
      qed
    qed
  qed
qed

lemma run_ok_docx_loop:
  "run_ok st \<Longrightarrow> docx_loop st ps = Inr st' \<Longrightarrow> run_ok st'"
proof (induction ps arbitrary: st)
  case Nil
  then show ?case by simp
next
  case (Cons p ps)
  then obtain st1 where s: "docx_step st p = Inr st1" and l: "docx_loop st1 ps = Inr st'"
    by (cases "docx_step st p") auto
  from Cons.IH [OF run_ok_docx_step [OF Cons.prems(1) s] l] show ?case .
qed

lemma run_ok_pdf_step:
  assumes "run_ok st"
  shows "run_ok (pdf_step thr pn st l)"
proof -
  let ?t = "py_strip (or_empty (ln_text l))"
  let ?sz = "case ln_size l of None \<Rightarrow> 0 | Some z \<Rightarrow> z"
  show ?thesis
  proof (cases "?t = []")
    case True
    then show ?thesis using assms by (simp add: pdf_step_def)
  next
    case nonempty: False
    show ?thesis
    proof (cases "is_heading thr ?sz (ln_bold l)")
      case True
      then have "pdf_step thr pn st l = \<lparr>sections = flush st,
          current = Some \<lparr>section_id = ''sec_'' @ py_str (sid st + 1), level = 2,
                          title = ?t, sec_text = [], page_start = pn, page_end = pn,
                          related = []\<rparr>,
          sid = sid st + 1\<rparr>"
        using nonempty by (simp add: pdf_step_def Let_def)
      then show ?thesis using run_ok_open [OF assms] by (simp add: sec_name_def)
    next
      case False
      show ?thesis
      proof (cases "current st")
        case None
        then have f: "flush st = sections st" by (simp add: flush_def)
        have "pdf_step thr pn st l = \<lparr>sections = flush st,
            current = Some \<lparr>section_id = ''sec_'' @ py_str (sid st + 1), level = 3,
                            title = ''Preamble'', sec_text = ?t, page_start = pn,
                            page_end = pn, related = []\<rparr>,
            sid = sid st + 1\<rparr>"
          using nonempty False None f by (simp add: pdf_step_def Let_def)
        then show ?thesis using run_ok_open [OF assms] by (simp add: sec_name_def)
      next
        case (Some c)
        let ?c = "(append_line c ?t)\<lparr>page_end := max (page_end c) pn\<rparr>"
        have st': "pdf_step thr pn st l = st\<lparr>current := Some ?c\<rparr>"
          using nonempty False Some by (simp add: pdf_step_def Let_def)
        have "page_start c \<le> page_end c"
          using assms Some by (simp add: run_ok_def flush_def)
        then show ?thesis unfolding st'
          using run_ok_update [OF assms Some, of ?c] by (simp add: append_line_def)
      qed
    qed
  qed
qed

lemma run_ok_pdf_lines: "run_ok st \<Longrightarrow> run_ok (foldl (pdf_step thr pn) st ls)"
  by (induction ls arbitrary: st) (simp_all add: run_ok_pdf_step)

lemma run_ok_pdf_pages: "run_ok st \<Longrightarrow> run_ok (foldl (pdf_page thr) st pages)"
  by (induction pages arbitrary: st) (simp_all add: pdf_page_def run_ok_pdf_lines)

lemma run_ok_flush:
  assumes "run_ok st"
  shows "list_all (\<lambda>s. page_start s \<le> page_end s) (flush st) \<and>
         map section_id (flush st) = map sec_name [1..<Suc (length (flush st))] \<and>
         distinct (map section_id (flush st))"
proof -
  have m: "map section_id (flush st) = map sec_name [1..<Suc (sid st)]"
    using assms by (simp add: run_ok_def)
  then have "length (flush st) = sid st"
    by (metis diff_Suc_1 length_map length_upt)
  moreover have "distinct (map sec_name [1..<Suc (sid st)])"
    using sec_name_inj by (simp add: distinct_map inj_on_def)
  ultimately show ?thesis using assms m by (simp add: run_ok_def)
qed

text \<open>
  C8. Every section that either sectionizer emits has \<open>page_start \<le> page_end\<close>, and the
  identifiers of one run are \<open>sec_1, sec_2, \<dots>\<close> in the order of emission: the numbers
  increase by one from section to section, and no identifier occurs twice. For the DOCX
  variant this is about a run that returns its sections.
\<close>

theorem section_invariants:
  "(sectionize_from_docx_paragraphs paras = Inr secs \<longrightarrow>
      list_all (\<lambda>s. page_start s \<le> page_end s) secs \<and>
      map section_id secs = map sec_name [1..<Suc (length secs)] \<and>
      distinct (map section_id secs)) \<and>
   list_all (\<lambda>s. page_start s \<le> page_end s) (sectionize_pdf_lines pages) \<and>
   map section_id (sectionize_pdf_lines pages) =
     map sec_name [1..<Suc (length (sectionize_pdf_lines pages))] \<and>
   distinct (map section_id (sectionize_pdf_lines pages))"
proof (intro conjI impI)
  assume a: "sectionize_from_docx_paragraphs paras = Inr secs"
  then obtain st where l: "docx_loop init_state paras = Inr st" and s: "secs = flush st"
    by (cases "docx_loop init_state paras") (auto simp: sectionize_from_docx_paragraphs_def)
  have ok: "run_ok st" using run_ok_docx_loop [OF run_ok_init l] .
  show "list_all (\<lambda>s. page_start s \<le> page_end s) secs"
    and "map section_id secs = map sec_name [1..<Suc (length secs)]"
    and "distinct (map section_id secs)"
    unfolding s using run_ok_flush [OF ok] by blast+
next
  let ?st = "foldl (pdf_page (compute_size_thresholds pages)) init_state pages"
  have ok: "run_ok ?st" using run_ok_pdf_pages [OF run_ok_init] .
  have e: "sectionize_pdf_lines pages = flush ?st"
    by (simp add: sectionize_pdf_lines_def Let_def)
  show "list_all (\<lambda>s. page_start s \<le> page_end s) (sectionize_pdf_lines pages)"
    and "map section_id (sectionize_pdf_lines pages) =
      map sec_name [1..<Suc (length (sectionize_pdf_lines pages))]"
    and "distinct (map section_id (sectionize_pdf_lines pages))"
    unfolding e using run_ok_flush [OF ok] by blast+
qed

lemma docx_example:
  "sectionize_from_docx_paragraphs example_paragraphs =
     Inr [\<lparr>section_id = ''sec_1'', level = 1, title = ''Intro'', sec_text = ''Hello world.'',
           page_start = 1, page_end = 1, related = []\<rparr>,
          \<lparr>section_id = ''sec_2'', level = 2, title = ''Details'', sec_text = ''More text.'',
           page_start = 1, page_end = 1, related = []\<rparr>]"
  by code_simp

lemma pdf_example:
  "sectionize_pdf_lines example_pages =
     [\<lparr>section_id = ''sec_1'', level = 3, title = ''Preamble'', sec_text = ''lead'',
       page_start = 1, page_end = 1, related = []\<rparr>,
      \<lparr>section_id = ''sec_2'', level = 2, title = ''Title'',
       sec_text = ''body a\<newline>body b'', page_start = 1, page_end = 2, related = []\<rparr>]"
  by code_simp

theorem section_invariants_witness:
  "sectionize_from_docx_paragraphs example_paragraphs =
     Inr [\<lparr>section_id = ''sec_1'', level = 1, title = ''Intro'', sec_text = ''Hello world.'',
           page_start = 1, page_end = 1, related = []\<rparr>,
          \<lparr>section_id = ''sec_2'', level = 2, title = ''Details'', sec_text = ''More text.'',
           page_start = 1, page_end = 1, related = []\<rparr>] \<and>
   distinct [''sec_1'', ''sec_2''] \<and>
   map section_id (sectionize_pdf_lines example_pages) = [''sec_1'', ''sec_2''] \<and>
   map page_start (sectionize_pdf_lines example_pages) = [1, 1] \<and>
   map page_end (sectionize_pdf_lines example_pages) = [1, 2] \<and>
   distinct (map section_id (sectionize_pdf_lines example_pages))"
proof -
  let ?secs = "[\<lparr>section_id = ''sec_1'', level = 1, title = ''Intro'',
           sec_text = ''Hello world.'', page_start = 1, page_end = 1, related = []\<rparr>,
          \<lparr>section_id = ''sec_2'', level = 2, title = ''Details'', sec_text = ''More text.'',
           page_start = 1, page_end = 1, related = []\<rparr>]"
  have "distinct (map section_id ?secs) \<and>
      distinct (map section_id (sectionize_pdf_lines example_pages))"
    using section_invariants [of example_paragraphs ?secs example_pages] docx_example
    by blast
  then show ?thesis using docx_example pdf_example by simp
qed

section \<open>The PDF sectionizer keeps every line\<close>

lemma join_lines_empty: "[] \<notin> set b \<Longrightarrow> (join_lines b = []) = (b = [])"
  by (induction b rule: join_lines.induct) auto

lemma join_lines_snoc:
  "[] \<notin> set b \<Longrightarrow>
     join_lines (b @ [t]) = join_lines b @ (if join_lines b \<noteq> [] then [CHR 0x0A] else []) @ t"
proof (induction b rule: join_lines.induct)
  case 1
  then show ?case by simp
next
  case (2 x)
  then show ?case by simp
next
  case (3 x y ys)
  then have "join_lines ((y # ys) @ [t]) =
      join_lines (y # ys) @ (if join_lines (y # ys) \<noteq> [] then [CHR 0x0A] else []) @ t"
    by simp
  moreover have "join_lines (y # ys) \<noteq> []"
    using 3(2) join_lines_empty [of "y # ys"] by simp
  ultimately show ?case using 3(2) by simp
qed

lemma covers_empty: "covers [] []"
  by (simp add: covers_def)

lemma covers_new:
  assumes "covers secs ts" "sec_text s = join_lines b" "[] \<notin> set b"
  shows "covers (secs @ [s]) (ts @ section_lines (s, b))"
proof -
  obtain bodies where b: "length bodies = length secs"
    "map sec_text secs = map join_lines bodies"
    "list_all (\<lambda>b. [] \<notin> set b) bodies"
    "concat (map section_lines (zip secs bodies)) = ts"
    using assms(1) unfolding covers_def by blast
  have "length (bodies @ [b]) = length (secs @ [s])" using b(1) by simp
  moreover have "map sec_text (secs @ [s]) = map join_lines (bodies @ [b])"
    using b(2) assms(2) by simp
  moreover have "list_all (\<lambda>b. [] \<notin> set b) (bodies @ [b])"
    using b(3) assms(3) by simp
  moreover have "concat (map section_lines (zip (secs @ [s]) (bodies @ [b]))) =
      ts @ section_lines (s, b)"
    using b(1,4) by simp
  ultimately show ?thesis unfolding covers_def by blast
qed

lemma covers_extend:
  assumes "covers (secs @ [c]) ts" "t \<noteq> []" "level c' = level c" "title c' = title c"
    "sec_text c' = sec_text c @ (if sec_text c \<noteq> [] then [CHR 0x0A] else []) @ t"
  shows "covers (secs @ [c']) (ts @ [t])"
proof -
  obtain bodies where b: "length bodies = length (secs @ [c])"
    "map sec_text (secs @ [c]) = map join_lines bodies"
    "list_all (\<lambda>b. [] \<notin> set b) bodies"
    "concat (map section_lines (zip (secs @ [c]) bodies)) = ts"
    using assms(1) unfolding covers_def by blast
  from b(1) obtain bs b0 where bodies: "bodies = bs @ [b0]"
    by (cases bodies rule: rev_cases) auto
  have len: "length bs = length secs" using b(1) bodies by simp
  have t0: "sec_text c = join_lines b0" and m: "map sec_text secs = map join_lines bs"
    using b(2) bodies len by auto
  have n0: "[] \<notin> set b0" and nb: "list_all (\<lambda>b. [] \<notin> set b) bs"
    using b(3) bodies by auto
  have ts: "concat (map section_lines (zip secs bs)) @ section_lines (c, b0) = ts"
    using b(4) bodies len by simp
  have "sec_text c' = join_lines (b0 @ [t])"
    using assms(5) t0 join_lines_snoc [OF n0, of t] by simp
  moreover have "section_lines (c', b0 @ [t]) = section_lines (c, b0) @ [t]"
    using assms(3,4) by (simp add: section_lines_def)
  moreover have "[] \<notin> set (b0 @ [t])" using n0 assms(2) by auto
  ultimately have
    "length (bs @ [b0 @ [t]]) = length (secs @ [c'])"
    "map sec_text (secs @ [c']) = map join_lines (bs @ [b0 @ [t]])"
    "list_all (\<lambda>b. [] \<notin> set b) (bs @ [b0 @ [t]])"
    "concat (map section_lines (zip (secs @ [c']) (bs @ [b0 @ [t]]))) = ts @ [t]"
    using len m nb ts by auto
  then show ?thesis unfolding covers_def by blast
qed

lemma covers_pdf_step:
  assumes "covers (flush st) ts"
  shows "covers (flush (pdf_step thr pn st l)) (ts @ line_texts [l])"
proof -
  let ?t = "py_strip (or_empty (ln_text l))"
  let ?sz = "case ln_size l of None \<Rightarrow> 0 | Some z \<Rightarrow> z"
  show ?thesis
  proof (cases "?t = []")
    case True
    then show ?thesis using assms by (simp add: pdf_step_def line_texts_def)
  next
    case nonempty: False
    then have lt: "line_texts [l] = [?t]" by (simp add: line_texts_def)
    show ?thesis
    proof (cases "is_heading thr ?sz (ln_bold l)")
      case True
      let ?new = "\<lparr>section_id = ''sec_'' @ py_str (sid st + 1), level = 2,
                          title = ?t, sec_text = [], page_start = pn, page_end = pn,
                          related = []\<rparr>"
      have "pdf_step thr pn st l = \<lparr>sections = flush st, current = Some ?new,
          sid = sid st + 1\<rparr>"
        using nonempty True by (simp add: pdf_step_def Let_def)
      then have f: "flush (pdf_step thr pn st l) = flush st @ [?new]"
        by (simp add: flush_open)
      have "covers (flush st @ [?new]) (ts @ section_lines (?new, []))"
        by (rule covers_new [OF assms]) simp_all
      then show ?thesis unfolding f lt by (simp add: section_lines_def)
    next
      case False
      show ?thesis
      proof (cases "current st")
        case None
        let ?new = "\<lparr>section_id = ''sec_'' @ py_str (sid st + 1), level = 3,
                            title = ''Preamble'', sec_text = ?t, page_start = pn,
                            page_end = pn, related = []\<rparr>"
        have fs: "flush st = sections st" using None by (simp add: flush_def)
        have "pdf_step thr pn st l = \<lparr>sections = sections st, current = Some ?new,
            sid = sid st + 1\<rparr>"
          using nonempty False None by (simp add: pdf_step_def Let_def)
        then have f: "flush (pdf_step thr pn st l) = flush st @ [?new]"
          using fs by (simp add: flush_open)
        have "covers (flush st @ [?new]) (ts @ section_lines (?new, [?t]))"
          by (rule covers_new [OF assms]) (use nonempty in auto)
        then show ?thesis unfolding f lt by (simp add: section_lines_def)
      next
        case (Some c)
        let ?c = "(append_line c ?t)\<lparr>page_end := max (page_end c) pn\<rparr>"
        have fs: "flush st = sections st @ [c]" using Some by (simp add: flush_def)
        have "pdf_step thr pn st l = st\<lparr>current := Some ?c\<rparr>"
          using nonempty False Some by (simp add: pdf_step_def Let_def)
        then have f: "flush (pdf_step thr pn st l) = sections st @ [?c]"
          by (simp add: flush_def)
        have "covers (sections st @ [?c]) (ts @ [?t])"
          by (rule covers_extend [where c = c])
            (use assms fs nonempty in \<open>simp_all add: append_line_def\<close>)
        then show ?thesis unfolding f lt .
      qed
    qed
  qed
qed

lemma line_texts_Cons: "line_texts (l # ls) = line_texts [l] @ line_texts ls"
  by (simp add: line_texts_def)

lemma covers_pdf_lines:
  "covers (flush st) ts \<Longrightarrow>
     covers (flush (foldl (pdf_step thr pn) st ls)) (ts @ line_texts ls)"
proof (induction ls arbitrary: st ts)
  case Nil
  then show ?case by (simp add: line_texts_def)
next
  case (Cons l ls)
  have "covers (flush (foldl (pdf_step thr pn) (pdf_step thr pn st l) ls))
      ((ts @ line_texts [l]) @ line_texts ls)"
    by (rule Cons.IH [OF covers_pdf_step [OF Cons.prems]])
  then show ?case by (simp add: line_texts_Cons [of l ls])
qed

lemma covers_pdf_pages:
  "covers (flush st) ts \<Longrightarrow>
     covers (flush (foldl (pdf_page thr) st pages)) (ts @ document_texts pages)"
proof (induction pages arbitrary: st ts)
  case Nil
  then show ?case by (simp add: document_texts_def)
next
  case (Cons p pages)
  have "covers (flush (pdf_page thr st p)) (ts @ line_texts (lines p))"
    unfolding pdf_page_def by (rule covers_pdf_lines [OF Cons.prems])
  from Cons.IH [OF this] show ?case by (simp add: document_texts_def)
qed

text \<open>
  C10. The PDF sectionizer loses no text. For every list of pages, the emitted sections
  cover the document's trimmed non-empty line texts: each section's body is the
  newline-join of some of these lines, a level-2 section contributes its title (the
  heading line that opened it) and then its body lines, the Preamble contributes its body
  lines, and all of these, section after section, are exactly the non-empty lines in
  reading order. Only lines that are empty after trimming are left out.
\<close>

theorem pdf_keeps_every_line:
  "covers (sectionize_pdf_lines pages) (document_texts pages)"
proof -
  have "covers (flush init_state) []"
    by (simp add: init_state_def flush_def covers_empty)
  from covers_pdf_pages [OF this, of "compute_size_thresholds pages" pages]
  show ?thesis by (simp add: sectionize_pdf_lines_def Let_def)
qed

lemma pdf_example_texts:
  "document_texts example_pages = [''lead'', ''Title'', ''body a'', ''body b'']"
  by code_simp

section \<open>The DOCX sectionizer before the first heading\<close>

lemma body_passes_quietly:
  "level_from_style (or_empty (p_style p)) = Inr 7 \<Longrightarrow> passes_quietly p"
  by (simp add: passes_quietly_def)

lemma docx_step_quiet:
  assumes "passes_quietly p" "current st = None"
  shows "docx_step st p = Inr st"
  using assms
  by (cases "level_from_style (or_empty (p_style p))")
    (auto simp: passes_quietly_def docx_step_def Let_def)

lemma docx_loop_quiet:
  assumes "list_all passes_quietly pre" "current st = None"
  shows "docx_loop st (pre @ rest) = docx_loop st rest"
  using assms by (induction pre) (simp_all add: docx_step_quiet)

lemma docx_step_opens:
  assumes "opens_section p"
  shows "\<exists>st'. docx_step st p = Inr st' \<and> flush st' \<noteq> [] \<and>
           title (hd (flush st' )) = (if flush st = [] then py_strip (or_empty (p_text p))
                                      else title (hd (flush st)))"
proof -
  obtain lvl where lvl: "level_from_style (or_empty (p_style p)) = Inr lvl"
    and c: "lvl \<le> 6 \<and> py_strip (or_empty (p_text p)) \<noteq> []"
    using assms
    by (cases "level_from_style (or_empty (p_style p))") (auto simp: opens_section_def)
  let ?new = "\<lparr>section_id = ''sec_'' @ py_str (sid st + 1), level = lvl,
      title = py_strip (or_empty (p_text p)), sec_text = [], page_start = 1, page_end = 1,
      related = []\<rparr>"
  have "docx_step st p = Inr \<lparr>sections = flush st, current = Some ?new, sid = sid st + 1\<rparr>"
    using lvl c by (simp add: docx_step_def Let_def)
  moreover have "flush \<lparr>sections = flush st, current = Some ?new, sid = sid st + 1\<rparr> =
      flush st @ [?new]" by (simp add: flush_open)
  ultimately show ?thesis by (cases "flush st") auto
qed

lemma docx_step_head:
  assumes "docx_step st p = Inr st'" "flush st \<noteq> []"
  shows "flush st' \<noteq> [] \<and> title (hd (flush st')) = title (hd (flush st))"
proof (cases "opens_section p")
  case True
  from docx_step_opens [OF True, of st] assms show ?thesis by auto
next
  case False
  obtain lvl where lvl: "level_from_style (or_empty (p_style p)) = Inr lvl"
    using assms(1) by (cases "level_from_style (or_empty (p_style p))") (auto simp: docx_step_def)
  let ?t = "py_strip (or_empty (p_text p))"
  have q: "\<not> (lvl \<le> 6 \<and> ?t \<noteq> [])" using False lvl by (simp add: opens_section_def)
  show ?thesis
  proof (cases "current st")
    case None
    then have "st' = st" using assms(1) lvl q by (auto simp: docx_step_def Let_def)
    then show ?thesis using assms(2) by simp
  next
    case (Some c)
    show ?thesis
    proof (cases "?t = []")
      case True
      then have "st' = st" using assms(1) lvl Some by (auto simp: docx_step_def Let_def)
      then show ?thesis using assms(2) by simp
    next
      case False
      then have "st' = st\<lparr>current := Some (append_line c ?t)\<rparr>"
        using assms(1) lvl Some q by (auto simp: docx_step_def Let_def)
      then have "flush st' = sections st @ [append_line c ?t]" by (simp add: flush_def)
      moreover have "flush st = sections st @ [c]" using Some by (simp add: flush_def)
      ultimately show ?thesis by (cases "sections st") (simp_all add: append_line_def)
    qed
  qed
qed

lemma docx_loop_head:
  "docx_loop st ps = Inr st' \<Longrightarrow> flush st \<noteq> [] \<Longrightarrow>
     flush st' \<noteq> [] \<and> title (hd (flush st')) = title (hd (flush st))"
proof (induction ps arbitrary: st)
  case Nil
  then show ?case by simp
next
  case (Cons p ps)
  then obtain st1 where s: "docx_step st p = Inr st1" and l: "docx_loop st1 ps = Inr st'"
    by (cases "docx_step st p") auto
  from docx_step_head [OF s Cons.prems(2)] Cons.IH [OF l] show ?case by simp
qed

text \<open>
  C7. Paragraphs before the first one that opens a section (body paragraphs of level 7, and
  heading paragraphs whose text is empty) are dropped: the result is the result for the
  remaining paragraphs, so nothing of them reaches an emitted section. The first emitted
  section has as its title the trimmed text of the first heading paragraph with non-empty
  text, and a document without such a paragraph yields the empty list.
\<close>

theorem docx_leading_body_dropped:
  "list_all passes_quietly pre \<longrightarrow>
     sectionize_from_docx_paragraphs (pre @ rest) = sectionize_from_docx_paragraphs rest \<and>
     sectionize_from_docx_paragraphs pre = Inr [] \<and>
     (opens_section h \<longrightarrow> sectionize_from_docx_paragraphs (pre @ h # after) = Inr secs \<longrightarrow>
        secs \<noteq> [] \<and> title (hd secs) = py_strip (or_empty (p_text h)))"
proof (intro impI conjI)
  assume pre: "list_all passes_quietly pre"
  have n: "current init_state = None" by (simp add: init_state_def)
  show drop: "sectionize_from_docx_paragraphs (pre @ rest) = sectionize_from_docx_paragraphs rest"
    for rest
    by (simp add: sectionize_from_docx_paragraphs_def docx_loop_quiet [OF pre n])
  show "sectionize_from_docx_paragraphs pre = Inr []"
    using drop [of "[]"]
    by (simp add: sectionize_from_docx_paragraphs_def init_state_def flush_def)
  assume h: "opens_section h"
    and r: "sectionize_from_docx_paragraphs (pre @ h # after) = Inr secs"
  have "sectionize_from_docx_paragraphs (h # after) = Inr secs" using drop [of "h # after"] r by simp
  moreover obtain st1 where s1: "docx_step init_state h = Inr st1" "flush st1 \<noteq> []"
    "title (hd (flush st1)) = py_strip (or_empty (p_text h))"
    using docx_step_opens [OF h, of init_state] by (auto simp: init_state_def flush_def)
  ultimately obtain st' where l: "docx_loop st1 after = Inr st'" and secs: "secs = flush st'"
    by (cases "docx_loop st1 after") (auto simp: sectionize_from_docx_paragraphs_def)
  from docx_loop_head [OF l s1(2)] s1(3) secs
  show "secs \<noteq> []" and "title (hd secs) = py_strip (or_empty (p_text h))" by simp_all
qed

section \<open>Heading levels from style names\<close>

lemma split_from_word:
  "list_all (\<lambda>c. \<not> isspace c) w \<Longrightarrow> split_from cur (w @ rest) = split_from (cur @ w) rest"
  by (induction w arbitrary: cur) simp_all

lemma py_split_heading: "py_split (''heading '' @ rest) = ''heading'' # py_split rest"
  by (simp add: py_split_def isspace_def)

lemma decimal_not_space: "is_decimal c \<Longrightarrow> \<not> isspace c"
  by (auto simp: is_decimal_def isspace_def)

lemma decimal_isdigit: "is_decimal c \<Longrightarrow> isdigit_char c"
  by (simp add: isdigit_char_def)

lemma py_split_digits:
  assumes "ds \<noteq> []" "list_all is_decimal ds"
  shows "py_split ds = [ds]"
proof -
  have "list_all (\<lambda>c. \<not> isspace c) ds"
    using assms(2) by (auto simp: list_all_iff decimal_not_space)
  from split_from_word [OF this, of "[]" "[]"] show ?thesis
    using assms(1) by (simp add: py_split_def)
qed

lemma startswith_append: "startswith (p @ r) p"
  by (simp add: startswith_def)

lemma startswith_split: "startswith s p \<Longrightarrow> s = p @ drop (length p) s"
  by (metis append_take_drop_id startswith_def)

lemma level_spaced:
  assumes "startswith (py_lower style) ''heading ''"
  shows "level_from_style style =
     (case first_token (drop 8 (py_lower style)) of
        None \<Rightarrow> Inr 2
      | Some tok \<Rightarrow> (case py_int tok of None \<Rightarrow> Inr 2 | Some k \<Rightarrow> Inr (max 1 (min 6 k))))"
proof -
  have l: "length ''heading '' = (8::nat)" by simp
  have "py_lower style = ''heading '' @ drop (length ''heading '') (py_lower style)"
    by (rule startswith_split [OF assms])
  then have "py_lower style = ''heading '' @ drop 8 (py_lower style)"
    unfolding l .
  then have "py_split (py_lower style) = ''heading'' # py_split (drop 8 (py_lower style))"
    using py_split_heading by metis
  then show ?thesis using assms
    by (simp add: level_from_style_def first_token_def Let_def split: list.splits)
qed

lemma level_spaced_digits:
  assumes "ds \<noteq> []" "list_all is_decimal ds" "length ds \<le> max_str_digits"
    "py_lower style = ''heading '' @ ds"
  shows "level_from_style style = Inr (max 1 (min 6 (int (digits_value 0 ds))))"
proof -
  have s: "startswith (py_lower style) ''heading ''"
    unfolding assms(4) by (rule startswith_append)
  have "drop 8 (py_lower style) = ds" unfolding assms(4) by simp
  then have "first_token (drop 8 (py_lower style)) = Some ds"
    by (simp add: first_token_def py_split_digits [OF assms(1,2)])
  then show ?thesis using level_spaced [OF s] by (simp add: py_int_digits [OF assms(1,2,3)])
qed

lemma joined_digits_branch:
  assumes "ds \<noteq> []" "list_all is_decimal ds" "py_lower style = ''heading'' @ ds"
  shows "level_from_style style =
     (case py_int ds of Some n \<Rightarrow> Inr (max 1 (min 6 n)) | None \<Rightarrow> Inl ValueError)"
proof -
  obtain c cs where c: "ds = c # cs" using assms(1) by (cases ds) auto
  have "is_decimal c" using assms(2) c by simp
  then have "c \<noteq> CHR '' ''" by (auto simp: is_decimal_def)
  then have a: "\<not> startswith (py_lower style) ''heading ''"
    unfolding assms(3) c by (simp add: startswith_def)
  have b: "startswith (py_lower style) ''heading''"
    unfolding assms(3) by (rule startswith_append)
  have e: "drop 7 (py_lower style) = ds" unfolding assms(3) by simp
  have "py_isdigit ds"
    using assms(1,2) by (auto simp: py_isdigit_def list_all_iff decimal_isdigit)
  moreover have "length (py_lower style) > 7" unfolding assms(3) c by simp
  ultimately show ?thesis using a b e
    by (simp add: level_from_style_def Let_def)
qed

lemma level_joined_digits:
  assumes "ds \<noteq> []" "list_all is_decimal ds" "length ds \<le> max_str_digits"
    "py_lower style = ''heading'' @ ds"
  shows "level_from_style style = Inr (max 1 (min 6 (int (digits_value 0 ds))))"
  using joined_digits_branch [OF assms(1,2,4)] py_int_digits [OF assms(1,2,3)] by simp

text \<open>
  Beyond the digit limit the two forms part: the spaced form falls into its
  \<^verbatim>\<open>except\<close> and gives level 2, the concatenated form raises.
\<close>

lemma level_spaced_too_long:
  assumes "list_all is_decimal ds" "length ds > max_str_digits"
    "py_lower style = ''heading '' @ ds"
  shows "level_from_style style = Inr 2"
proof -
  have ne: "ds \<noteq> []" using assms(2) by auto
  have s: "startswith (py_lower style) ''heading ''"
    unfolding assms(3) by (rule startswith_append)
  have "drop 8 (py_lower style) = ds" unfolding assms(3) by simp
  then have "first_token (drop 8 (py_lower style)) = Some ds"
    by (simp add: first_token_def py_split_digits [OF ne assms(1)])
  then show ?thesis using level_spaced [OF s] by (simp add: py_int_too_long [OF assms(1,2)])
qed

lemma level_joined_too_long:
  assumes "list_all is_decimal ds" "length ds > max_str_digits"
    "py_lower style = ''heading'' @ ds"
  shows "level_from_style style = Inl ValueError"
proof -
  have ne: "ds \<noteq> []" using assms(2) by auto
  show ?thesis
    using joined_digits_branch [OF ne assms(1,3)] py_int_too_long [OF assms(1,2)] by simp
qed

lemma level_body:
  assumes "\<not> startswith (py_lower style) ''heading ''"
    "\<not> (startswith (py_lower style) ''heading'' \<and> py_isdigit (drop 7 (py_lower style)))"
  shows "level_from_style style = Inr 7"
  using assms by (auto simp: level_from_style_def Let_def)

text \<open>
  C4, as amended. With the style name lower-cased: \<open>heading N\<close> and \<open>headingN\<close>, where
  \<open>N\<close> is a string of one to 4300 decimal digits (leading zeros allowed), give the
  value of \<open>N\<close> clamped to 1..6; so do the two forms with the numeral that \<^verbatim>\<open>str\<close>
  prints for a number of at most 4300 digits. More generally a name that starts with
  \<open>heading\<close> and a space gives the clamped value of its next token when \<^verbatim>\<open>int\<close> reads
  that token, and level 2 when there is no next token or \<^verbatim>\<open>int\<close> refuses it; a name that
  neither starts with \<open>heading\<close> and a space nor is \<open>heading\<close> followed by digit
  characters only gives level 7.
\<close>

theorem level_from_style_levels:
  "(ds \<noteq> [] \<longrightarrow> list_all is_decimal ds \<longrightarrow> length ds \<le> max_str_digits \<longrightarrow>
      py_lower style = ''heading '' @ ds \<or> py_lower style = ''heading'' @ ds \<longrightarrow>
      level_from_style style = Inr (max 1 (min 6 (int (digits_value 0 ds))))) \<and>
   (length (py_str n) \<le> max_str_digits \<longrightarrow>
      py_lower style = ''heading '' @ py_str n \<or> py_lower style = ''heading'' @ py_str n \<longrightarrow>
      level_from_style style = Inr (max 1 (min 6 (int n)))) \<and>
   (startswith (py_lower style) ''heading '' \<longrightarrow>
      first_token (drop 8 (py_lower style)) = Some tok \<longrightarrow> py_int tok = Some k \<longrightarrow>
      level_from_style style = Inr (max 1 (min 6 k))) \<and>
   (startswith (py_lower style) ''heading '' \<longrightarrow>
      first_token (drop 8 (py_lower style)) = None \<or>
      (first_token (drop 8 (py_lower style)) = Some tok \<and> py_int tok = None) \<longrightarrow>
      level_from_style style = Inr 2) \<and>
   (\<not> startswith (py_lower style) ''heading '' \<longrightarrow>
      \<not> (startswith (py_lower style) ''heading'' \<and> py_isdigit (drop 7 (py_lower style))) \<longrightarrow>
      level_from_style style = Inr 7)"
proof (intro conjI impI)
  assume "ds \<noteq> []" "list_all is_decimal ds" "length ds \<le> max_str_digits"
    "py_lower style = ''heading '' @ ds \<or> py_lower style = ''heading'' @ ds"
  then show "level_from_style style = Inr (max 1 (min 6 (int (digits_value 0 ds))))"
    using level_spaced_digits level_joined_digits by blast
next
  assume l: "length (py_str n) \<le> max_str_digits"
    and "py_lower style = ''heading '' @ py_str n \<or> py_lower style = ''heading'' @ py_str n"
  then have "level_from_style style = Inr (max 1 (min 6 (int (digits_value 0 (py_str n)))))"
    using level_spaced_digits [OF py_str_nonempty py_str_decimal l]
      level_joined_digits [OF py_str_nonempty py_str_decimal l] by blast
  then show "level_from_style style = Inr (max 1 (min 6 (int n)))"
    by (simp add: digits_value_py_str)
next
  assume "startswith (py_lower style) ''heading ''"
    "first_token (drop 8 (py_lower style)) = Some tok" "py_int tok = Some k"
  then show "level_from_style style = Inr (max 1 (min 6 k))"
    by (simp add: level_spaced)
next
  assume "startswith (py_lower style) ''heading ''"
    "first_token (drop 8 (py_lower style)) = None \<or>
      (first_token (drop 8 (py_lower style)) = Some tok \<and> py_int tok = None)"
  then show "level_from_style style = Inr 2"
    by (auto simp: level_spaced)
next
  assume "\<not> startswith (py_lower style) ''heading ''"
    "\<not> (startswith (py_lower style) ''heading'' \<and> py_isdigit (drop 7 (py_lower style)))"
  then show "level_from_style style = Inr 7" by (rule level_body)
qed

text \<open>
  The claim as stated sends every name that is not of the form \<open>Heading N\<close> to level 7;
  the style name \<open>Heading foo\<close> gets level 2.
\<close>

theorem level_from_style_counterexample: "level_from_style ''Heading foo'' = Inr 2"
  by code_simp

theorem level_from_style_levels_witness:
  "py_lower ''Heading 2'' = ''heading '' @ py_str 2 \<and>
   length (py_str 2) \<le> max_str_digits \<and>
   level_from_style ''Heading 2'' = Inr 2 \<and>
   py_lower ''Heading10'' = ''heading'' @ py_str 10 \<and>
   length (py_str 10) \<le> max_str_digits \<and>
   level_from_style ''Heading10'' = Inr 6 \<and>
   py_lower ''Heading01'' = ''heading'' @ ''01'' \<and>
   list_all is_decimal ''01'' \<and> length ''01'' \<le> max_str_digits \<and>
   digits_value 0 ''01'' = 1 \<and>
   level_from_style ''Heading01'' = Inr 1 \<and>
   startswith (py_lower ''HEADING 3 Char'') ''heading '' \<and>
   first_token (drop 8 (py_lower ''HEADING 3 Char'')) = Some ''3'' \<and> py_int ''3'' = Some 3 \<and>
   level_from_style ''HEADING 3 Char'' = Inr 3 \<and>
   startswith (py_lower ''Heading foo'') ''heading '' \<and>
   first_token (drop 8 (py_lower ''Heading foo'')) = Some ''foo'' \<and> py_int ''foo'' = None \<and>
   level_from_style ''Heading foo'' = Inr 2 \<and>
   \<not> startswith (py_lower ''Normal'') ''heading'' \<and>
   level_from_style ''Normal'' = Inr 7"
proof -
  have f1: "py_lower ''Heading 2'' = ''heading '' @ py_str 2"
    "length (py_str 2) \<le> max_str_digits" by code_simp+
  have f2: "py_lower ''Heading10'' = ''heading'' @ py_str 10"
    "length (py_str 10) \<le> max_str_digits" by code_simp+
  have f3: "startswith (py_lower ''HEADING 3 Char'') ''heading ''"
    "first_token (drop 8 (py_lower ''HEADING 3 Char'')) = Some ''3''" "py_int ''3'' = Some 3"
    by code_simp+
  have f4: "startswith (py_lower ''Heading foo'') ''heading ''"
    "first_token (drop 8 (py_lower ''Heading foo'')) = Some ''foo''" "py_int ''foo'' = None"
    by code_simp+
  have f5: "\<not> startswith (py_lower ''Normal'') ''heading''"
    "\<not> startswith (py_lower ''Normal'') ''heading ''"
    by code_simp+
  have f6: "py_lower ''Heading01'' = ''heading'' @ ''01''" "list_all is_decimal ''01''"
    "length ''01'' \<le> max_str_digits" "digits_value 0 ''01'' = 1" "''01'' \<noteq> []"
    by code_simp+
  have a: "level_from_style ''Heading 2'' = Inr 2"
    using level_from_style_levels [where style = "''Heading 2''" and n = 2] f1 by simp
  have b: "level_from_style ''Heading10'' = Inr 6"
    using level_from_style_levels [where style = "''Heading10''" and n = 10] f2 by simp
  have c: "level_from_style ''HEADING 3 Char'' = Inr 3"
    using level_from_style_levels [where style = "''HEADING 3 Char''" and tok = "''3''" and k = 3]
      f3 by simp
  have d: "level_from_style ''Heading foo'' = Inr 2"
    using level_from_style_levels [where style = "''Heading foo''" and tok = "''foo''"] f4
    by blast
  have e: "level_from_style ''Normal'' = Inr 7"
    using level_from_style_levels [where style = "''Normal''"] f5 by blast
  have g0: "level_from_style ''Heading01'' = Inr (max 1 (min 6 (int (digits_value 0 ''01''))))"
    using level_from_style_levels [where style = "''Heading01''" and ds = "''01''"] f6
    by blast
  have g: "level_from_style ''Heading01'' = Inr 1"
    unfolding g0 f6(4) by simp
  from f1 f2 f3 f4 f5(1) f6(1,2,3,4) a b c d e g show ?thesis by blast
qed

lemma example_split:
  "example_paragraphs =
     [\<lparr>p_text = Some ''Lead'', p_style = Some ''Normal''\<rparr>] @
     \<lparr>p_text = Some '' Intro '', p_style = Some ''Heading 1''\<rparr> #
     [\<lparr>p_text = Some ''Hello world.'', p_style = Some ''Normal''\<rparr>,
      \<lparr>p_text = Some ''Details'', p_style = Some ''Heading 2''\<rparr>,
      \<lparr>p_text = Some ''More text.'', p_style = None\<rparr>]"
  by (simp add: example_paragraphs_def)

theorem docx_leading_body_dropped_witness:
  "list_all passes_quietly [\<lparr>p_text = Some ''Lead'', p_style = Some ''Normal''\<rparr>] \<and>
   opens_section \<lparr>p_text = Some '' Intro '', p_style = Some ''Heading 1''\<rparr> \<and>
   sectionize_from_docx_paragraphs [\<lparr>p_text = Some ''Lead'', p_style = Some ''Normal''\<rparr>] = Inr [] \<and>
   sectionize_from_docx_paragraphs example_paragraphs =
     sectionize_from_docx_paragraphs
       (\<lparr>p_text = Some '' Intro '', p_style = Some ''Heading 1''\<rparr> #
        [\<lparr>p_text = Some ''Hello world.'', p_style = Some ''Normal''\<rparr>,
         \<lparr>p_text = Some ''Details'', p_style = Some ''Heading 2''\<rparr>,
         \<lparr>p_text = Some ''More text.'', p_style = None\<rparr>]) \<and>
   (\<exists>secs. sectionize_from_docx_paragraphs example_paragraphs = Inr secs \<and> secs \<noteq> [] \<and>
      title (hd secs) = ''Intro'')"
proof -
  let ?lead = "\<lparr>p_text = Some ''Lead'', p_style = Some ''Normal''\<rparr>"
  let ?h = "\<lparr>p_text = Some '' Intro '', p_style = Some ''Heading 1''\<rparr>"
  let ?after = "[\<lparr>p_text = Some ''Hello world.'', p_style = Some ''Normal''\<rparr>,
      \<lparr>p_text = Some ''Details'', p_style = Some ''Heading 2''\<rparr>,
      \<lparr>p_text = Some ''More text.'', p_style = None\<rparr>]"
  let ?secs = "[\<lparr>section_id = ''sec_1'', level = 1, title = ''Intro'',
           sec_text = ''Hello world.'', page_start = 1, page_end = 1, related = []\<rparr>,
          \<lparr>section_id = ''sec_2'', level = 2, title = ''Details'', sec_text = ''More text.'',
           page_start = 1, page_end = 1, related = []\<rparr>]"
  have q: "list_all passes_quietly [?lead]" by code_simp
  have o: "opens_section ?h" by code_simp
  have t: "py_strip (or_empty (p_text ?h)) = ''Intro''" by code_simp
  have r: "sectionize_from_docx_paragraphs ([?lead] @ ?h # ?after) = Inr ?secs"
    using docx_example unfolding example_split .
  note inst = docx_leading_body_dropped [of "[?lead]" "?h # ?after" ?h ?after ?secs]
  have a: "sectionize_from_docx_paragraphs ([?lead] @ ?h # ?after) =
      sectionize_from_docx_paragraphs (?h # ?after)"
    and b: "sectionize_from_docx_paragraphs [?lead] = Inr []"
    and c: "?secs \<noteq> [] \<and> title (hd ?secs) = py_strip (or_empty (p_text ?h))"
    using inst q o r by blast+
  have "\<exists>secs. sectionize_from_docx_paragraphs example_paragraphs = Inr secs \<and> secs \<noteq> [] \<and>
      title (hd secs) = ''Intro''"
    using docx_example by simp
  then show ?thesis using q o a b unfolding example_split by blast
qed

text \<open>
  What covering means for a single line: it is the title of a level-2 section or one of the
  newline-joined lines of some section's body.
\<close>

lemma covers_member:
  assumes "covers secs ts" "t \<in> set ts"
  shows "\<exists>s \<in> set secs. (level s = 2 \<and> title s = t) \<or>
           (\<exists>b. sec_text s = join_lines b \<and> t \<in> set b)"
proof -
  obtain bodies where b: "length bodies = length secs"
    "map sec_text secs = map join_lines bodies"
    "concat (map section_lines (zip secs bodies)) = ts"
    using assms(1) unfolding covers_def by blast
  from assms(2) b(3) obtain s bd where sb: "(s, bd) \<in> set (zip secs bodies)"
    and t: "t \<in> set (section_lines (s, bd))" by auto
  from sb obtain i where i: "i < length secs" "secs ! i = s" "bodies ! i = bd"
    using b(1) by (auto simp: in_set_zip)
  have "sec_text (secs ! i) = join_lines (bodies ! i)"
    using b(1,2) i(1) by (metis nth_map)
  then have "sec_text s = join_lines bd" using i by simp
  moreover have "s \<in> set secs" using i by auto
  ultimately show ?thesis using t
    by (auto simp: section_lines_def split: if_splits)
qed

end
